theory Spec2Isabelle
  imports Complex_Main "HOL-Library.Multiset"
begin

section \<open>Values and errors\<close>

text \<open>
  The notebook \<^verbatim>\<open>embedding-search.ipynb\<close> keeps a cache of embeddings, computes the
  cosine similarity of a query embedding to every embedding of a corpus, ranks the
  corpus by it and prints the nearest neighbours. An embedding is a list of finite
  floats, each taken as the real number it denotes. What numpy computes from them is not
  computed here: it is a parameter of the model (section "Cosine similarity").
\<close>

type_synonym embedding = "real list"

type_synonym key = "string \<times> string"

text \<open>The exceptions the modelled code can raise, by their Python names.\<close>

datatype error =
    ValueError
  | IndexError
  | FileNotFoundError
  | UnpicklingError
  | OSError
  | APIError

text \<open>Python's \<open>xs[i]\<close> on a sequence: a negative index counts from the end.\<close>

definition py_getitem :: "'a list \<Rightarrow> int \<Rightarrow> error + 'a" where
  "py_getitem xs i =
     (if 0 \<le> i \<and> i < int (length xs) then Inr (xs ! nat i)
      else if - int (length xs) \<le> i \<and> i < 0 then Inr (xs ! nat (int (length xs) + i))
      else Inl IndexError)"

section \<open>The embedding cache\<close>

text \<open>
  The cache is a dict from \<open>(text, model)\<close> to the embedding, held in memory and pickled
  to one file. The file is missing, unreadable by pickle, or holds a pickled dict.
\<close>

datatype cache_file_state = Missing | Corrupt | Pickled "key \<rightharpoonup> embedding"

text \<open>
  What is outside the program: the embedding provider, whose answer may depend on the
  requests made so far and may be an exception, and the file system, where the n-th
  attempt to rewrite the cache file succeeds, fails on \<open>open\<close> (the file is left as it
  was) or fails during \<open>pickle.dump\<close> (the file is left truncated).
\<close>

datatype write_outcome = Written | OpenFails | DumpFails

record env =
  get_embedding :: "(key \<times> (error + embedding)) list \<Rightarrow> string \<Rightarrow> string \<Rightarrow> error + embedding"
  disk :: "nat \<Rightarrow> write_outcome"

text \<open>
  The state: the dict \<open>embedding_cache\<close>, the cache file, and two histories that the
  program does not hold but the properties speak about: every request sent to the
  provider with its answer, and the number of writes attempted.
\<close>

record world =
  embedding_cache :: "key \<rightharpoonup> embedding"
  cache_file :: cache_file_state
  requests :: "(key \<times> (error + embedding)) list"
  writes :: nat

text \<open>
  \<^verbatim>\<open>with open(embedding_cache_path, "wb") as embedding_cache_file:
      pickle.dump(embedding_cache, embedding_cache_file)\<close>
\<close>

definition pickle_dump :: "env \<Rightarrow> world \<Rightarrow> (error + unit) \<times> world" where
  "pickle_dump E w =
     (case disk E (writes w) of
        Written \<Rightarrow>
          (Inr (), w\<lparr>cache_file := Pickled (embedding_cache w), writes := Suc (writes w)\<rparr>)
      | OpenFails \<Rightarrow> (Inl OSError, w\<lparr>writes := Suc (writes w)\<rparr>)
      | DumpFails \<Rightarrow> (Inl OSError, w\<lparr>cache_file := Corrupt, writes := Suc (writes w)\<rparr>))"

definition read_pickle :: "cache_file_state \<Rightarrow> error + (key \<rightharpoonup> embedding)" where
  "read_pickle f =
     (case f of Missing \<Rightarrow> Inl FileNotFoundError
      | Corrupt \<Rightarrow> Inl UnpicklingError
      | Pickled c \<Rightarrow> Inr c)"

text \<open>
  The cell that sets the cache up when the notebook starts:
  \<^verbatim>\<open>try:
      embedding_cache = pd.read_pickle(embedding_cache_path)
  except FileNotFoundError:
      embedding_cache = {}
  with open(embedding_cache_path, "wb") as embedding_cache_file:
      pickle.dump(embedding_cache, embedding_cache_file)\<close>
  Only \<open>FileNotFoundError\<close> is caught; any other exception ends the cell.
\<close>

definition load_embedding_cache :: "env \<Rightarrow> cache_file_state \<Rightarrow> error + world" where
  "load_embedding_cache E f =
     (case (case read_pickle f of
              Inl e \<Rightarrow> if e = FileNotFoundError then Inr Map.empty else Inl e
            | Inr c \<Rightarrow> Inr c) of
        Inl e \<Rightarrow> Inl e
      | Inr c \<Rightarrow>
          (case pickle_dump E \<lparr>embedding_cache = c, cache_file = f, requests = [], writes = 0\<rparr> of
             (Inl e, w) \<Rightarrow> Inl e
           | (Inr u, w) \<Rightarrow> Inr w))"

text \<open>
  \<^verbatim>\<open>def embedding_from_string(string, model, embedding_cache):
      if (string, model) not in embedding_cache.keys():
          embedding_cache[(string, model)] = get_embedding(string, model)
          with open(embedding_cache_path, "wb") as embedding_cache_file:
              pickle.dump(embedding_cache, embedding_cache_file)
      return embedding_cache[(string, model)]\<close>
  The result is the value returned or the exception raised, with the state the call
  leaves behind: an exception does not undo what was done before it.
\<close>

definition embedding_from_string ::
    "env \<Rightarrow> string \<Rightarrow> string \<Rightarrow> world \<Rightarrow> (error + embedding) \<times> world" where
  "embedding_from_string E string model w =
     (case embedding_cache w (string, model) of
        Some v \<Rightarrow> (Inr v, w)
      | None \<Rightarrow>
          (case get_embedding E (requests w) string model of
             Inl e \<Rightarrow> (Inl e, w\<lparr>requests := requests w @ [((string, model), Inl e)]\<rparr>)
           | Inr v \<Rightarrow>
               (case pickle_dump E
                       (w\<lparr>requests := requests w @ [((string, model), Inr v)],
                          embedding_cache := (embedding_cache w)((string, model) \<mapsto> v)\<rparr>) of
                  (Inl e, w') \<Rightarrow> (Inl e, w')
                | (Inr u, w') \<Rightarrow> (Inr v, w'))))"

text \<open>
  The life of a cache: any sequence of lookups, each starting from the state the one
  before left, whether it returned or raised.
\<close>

fun lookups :: "env \<Rightarrow> key list \<Rightarrow> world \<Rightarrow> world" where
  "lookups E [] w = w"
| "lookups E (k # ks) w = lookups E ks (snd (embedding_from_string E (fst k) (snd k) w))"

text \<open>The requests for one key, and those of them the provider answered with an embedding.\<close>

definition requests_for :: "key \<Rightarrow> world \<Rightarrow> (key \<times> (error + embedding)) list" where
  "requests_for k w = filter (\<lambda>r. fst r = k) (requests w)"

definition computations :: "key \<Rightarrow> world \<Rightarrow> nat" where
  "computations k w = length (filter (\<lambda>r. fst r = k \<and> \<not> isl (snd r)) (requests w))"

text \<open>
  The life of a cache over several runs of the notebook. A restart is a new run in a new
  interpreter: the startup cell runs on the file as the run before left it; the provider
  and the file system go on from where they were, so the two histories are kept. When
  the cell raises, the lines after it are not run: \<open>embedding_from_string\<close> is not
  defined, and a lookup does nothing until a later restart goes through. The flag says
  whether the cell went through.
\<close>

definition restart :: "env \<Rightarrow> world \<Rightarrow> (error + unit) \<times> world" where
  "restart E w =
     (case (case read_pickle (cache_file w) of
              Inl e \<Rightarrow> if e = FileNotFoundError then Inr Map.empty else Inl e
            | Inr c \<Rightarrow> Inr c) of
        Inl e \<Rightarrow> (Inl e, w\<lparr>embedding_cache := Map.empty\<rparr>)
      | Inr c \<Rightarrow> pickle_dump E (w\<lparr>embedding_cache := c\<rparr>))"

datatype event = Lookup string string | Restart

fun lifetime :: "env \<Rightarrow> event list \<Rightarrow> bool \<times> world \<Rightarrow> bool \<times> world" where
  "lifetime E [] s = s"
| "lifetime E (Lookup string model # evs) (running, w) =
     lifetime E evs
       (if running then (True, snd (embedding_from_string E string model w)) else (False, w))"
| "lifetime E (Restart # evs) (running, w) =
     lifetime E evs
       (case restart E w of (Inl e, w') \<Rightarrow> (False, w') | (Inr u, w') \<Rightarrow> (True, w'))"

text \<open>
  \<^verbatim>\<open>embeddings = [embedding_from_string(string, model=model) for string in strings]\<close>
\<close>

fun embeddings_from_strings ::
    "env \<Rightarrow> string list \<Rightarrow> string \<Rightarrow> world \<Rightarrow> (error + embedding list) \<times> world" where
  "embeddings_from_strings E [] model w = (Inr [], w)"
| "embeddings_from_strings E (s # ss) model w =
     (case embedding_from_string E s model w of
        (Inl e, w') \<Rightarrow> (Inl e, w')
      | (Inr v, w') \<Rightarrow>
          (case embeddings_from_strings E ss model w' of
             (Inl e, w'') \<Rightarrow> (Inl e, w'')
           | (Inr vs, w'') \<Rightarrow> (Inr (v # vs), w'')))"

section \<open>Cosine similarity\<close>

text \<open>
  A numpy float: a finite number, an infinity or NaN (the two zeros are one value: they
  compare equal). Python's \<open><\<close> on floats is false whenever an operand is NaN.
\<close>

datatype score = Finite real | PlusInf | MinusInf | NaN

fun float_lt :: "score \<Rightarrow> score \<Rightarrow> bool" where
  "float_lt NaN y = False"
| "float_lt x NaN = False"
| "float_lt (Finite a) (Finite b) = (a < b)"
| "float_lt (Finite a) PlusInf = True"
| "float_lt (Finite a) MinusInf = False"
| "float_lt PlusInf y = False"
| "float_lt MinusInf MinusInf = False"
| "float_lt MinusInf y = True"

text \<open>
  What the libraries compute is taken as a parameter, and the theorems hold whatever it
  is. The float64 results of \<open>np.dot\<close> and \<open>np.linalg.norm\<close> are rounded, can overflow and
  underflow, and depend on the order in which the BLAS library sums; \<open>*\<close> and \<open>/\<close> on
  float64 round too. None of them raises on lists of floats of one length: a zero divisor
  gives NaN or an infinity. The last field is the order \<open>sorted\<close> gives 64 or more keys of
  which one is NaN (section "Ranking indices by score").
\<close>

record runtime =
  np_dot :: "embedding \<Rightarrow> embedding \<Rightarrow> score"
  np_norm :: "embedding \<Rightarrow> score"
  np_multiply :: "score \<Rightarrow> score \<Rightarrow> score"
  np_divide :: "score \<Rightarrow> score \<Rightarrow> score"
  list_sort_long :: "score list \<Rightarrow> nat \<Rightarrow> nat"

text \<open>
  Rules of IEEE 754 arithmetic about zero, which the float64 operations obey whatever the
  rounding: a dot product with a vector of zeros and the norm of a vector of zeros are
  zero, a product with zero is zero or (for an infinity or NaN) NaN, and zero divided by
  zero or by NaN is NaN.
\<close>

definition ieee_zero_rules :: "runtime \<Rightarrow> bool" where
  "ieee_zero_rules R \<longleftrightarrow>
     (\<forall>a b. length a = length b \<and> ((\<forall>x\<in>set a. x = 0) \<or> (\<forall>x\<in>set b. x = 0))
        \<longrightarrow> np_dot R a b = Finite 0) \<and>
     (\<forall>a. (\<forall>x\<in>set a. x = 0) \<longrightarrow> np_norm R a = Finite 0) \<and>
     (\<forall>x. (np_multiply R x (Finite 0) = Finite 0 \<or> np_multiply R x (Finite 0) = NaN) \<and>
          (np_multiply R (Finite 0) x = Finite 0 \<or> np_multiply R (Finite 0) x = NaN)) \<and>
     np_divide R (Finite 0) (Finite 0) = NaN \<and>
     np_divide R (Finite 0) NaN = NaN"

text \<open>
  \<^verbatim>\<open>def cosine_similarity(embedding1, embedding2):
      return np.dot(embedding1, embedding2) / (np.linalg.norm(embedding1) * np.linalg.norm(embedding2))\<close>
  \<open>np.dot\<close> of two lists of different lengths raises \<open>ValueError\<close>.
\<close>

definition cosine_similarity :: "runtime \<Rightarrow> embedding \<Rightarrow> embedding \<Rightarrow> error + score" where
  "cosine_similarity R embedding1 embedding2 =
     (if length embedding1 = length embedding2
      then Inr (np_divide R (np_dot R embedding1 embedding2)
                  (np_multiply R (np_norm R embedding1) (np_norm R embedding2)))
      else Inl ValueError)"

text \<open>
  \<^verbatim>\<open>return [cosine_similarity(query_embedding, embedding) for embedding in embeddings]\<close>
\<close>

fun distances_from_embeddings ::
    "runtime \<Rightarrow> embedding \<Rightarrow> embedding list \<Rightarrow> error + score list" where
  "distances_from_embeddings R query_embedding [] = Inr []"
| "distances_from_embeddings R query_embedding (e # es) =
     (case cosine_similarity R query_embedding e of
        Inl err \<Rightarrow> Inl err
      | Inr d \<Rightarrow>
          (case distances_from_embeddings R query_embedding es of
             Inl err \<Rightarrow> Inl err
           | Inr ds \<Rightarrow> Inr (d # ds)))"

section \<open>Ranking indices by score\<close>

text \<open>
  The notebook ranks the corpus with
  \<^verbatim>\<open>sorted(range(len(distances)), key=lambda i: distances[i])[::-1]\<close>.
  \<open>sorted\<close> compares keys with \<open><\<close> only. For fewer than 64 items CPython 3.11 (the
  notebook's interpreter) sorts in two steps, modelled here as they are written in
  \<open>listobject.c\<close>: \<open>count_run\<close> takes the longest prefix that is non-descending, or
  strictly descending (and then reverses it), and \<open>binarysort\<close> inserts every later
  item into it at the place a binary search gives.
\<close>

fun run_ascending :: "('a \<Rightarrow> score) \<Rightarrow> 'a \<Rightarrow> 'a list \<Rightarrow> nat" where
  "run_ascending key prev [] = 0"
| "run_ascending key prev (x # xs) =
     (if float_lt (key x) (key prev) then 0 else Suc (run_ascending key x xs))"

fun run_descending :: "('a \<Rightarrow> score) \<Rightarrow> 'a \<Rightarrow> 'a list \<Rightarrow> nat" where
  "run_descending key prev [] = 0"
| "run_descending key prev (x # xs) =
     (if float_lt (key x) (key prev) then Suc (run_descending key x xs) else 0)"

fun count_run :: "('a \<Rightarrow> score) \<Rightarrow> 'a list \<Rightarrow> nat \<times> bool" where
  "count_run key [] = (0, False)"
| "count_run key [x] = (1, False)"
| "count_run key (x # y # ys) =
     (if float_lt (key y) (key x) then (2 + run_descending key y ys, True)
      else (2 + run_ascending key y ys, False))"

text \<open>
  \<^verbatim>\<open>do {
      p = l + ((r - l) >> 1);
      IFLT(pivot, *p) r = p;
      else l = p+1;
  } while (l < r);\<close>
  entered with \<open>l < r\<close>.
\<close>

function bisect :: "('a \<Rightarrow> score) \<Rightarrow> 'a \<Rightarrow> 'a list \<Rightarrow> nat \<Rightarrow> nat \<Rightarrow> nat" where
  "bisect key pivot xs l r =
     (if l < r
      then (let p = l + (r - l) div 2
            in if float_lt (key pivot) (key (xs ! p))
               then bisect key pivot xs l p
               else bisect key pivot xs (p + 1) r)
      else l)"
  by pat_completeness auto
termination
  by (relation "measure (\<lambda>(key, pivot, xs, l, r). r - l)") auto

declare bisect.simps [simp del]

fun binarysort :: "('a \<Rightarrow> score) \<Rightarrow> 'a list \<Rightarrow> 'a list \<Rightarrow> 'a list" where
  "binarysort key run [] = run"
| "binarysort key run (pivot # rest) =
     (let l = bisect key pivot run 0 (length run)
      in binarysort key (take l run @ pivot # drop l run) rest)"

definition list_sort_short :: "('a \<Rightarrow> score) \<Rightarrow> 'a list \<Rightarrow> 'a list" where
  "list_sort_short key xs =
     (if length xs < 2 then xs
      else (case count_run key xs of
              (n, descending) \<Rightarrow>
                binarysort key (if descending then rev (take n xs) else take n xs) (drop n xs)))"

text \<open>
  For 64 or more items CPython merges runs. Python guarantees that the sort is stable,
  and on keys that \<open><\<close> orders totally (no NaN) the result of a stable sort is one list
  only, which the insertion sort above computes as well. For 64 or more keys of which one
  is NaN the merging still returns a permutation of the items, in an order that depends on
  the keys; that order is the parameter: \<open>list_sort_long R distances i\<close> is the place of
  index \<open>i\<close> in it (two indices given the same place stay in their order).
\<close>

definition sorted_range :: "runtime \<Rightarrow> score list \<Rightarrow> nat list" where
  "sorted_range R distances =
     (if length distances < 64 \<or> NaN \<notin> set distances
      then list_sort_short (\<lambda>i. distances ! i) [0..<length distances]
      else sort_key (list_sort_long R distances) [0..<length distances])"

definition indices_of_closest_matches_from_distances :: "runtime \<Rightarrow> score list \<Rightarrow> nat list" where
  "indices_of_closest_matches_from_distances R distances = rev (sorted_range R distances)"

text \<open>Position of the first occurrence of an element (the length of the list when absent).\<close>

fun position :: "'a list \<Rightarrow> 'a \<Rightarrow> nat" where
  "position [] a = 0"
| "position (x # xs) a = (if x = a then 0 else Suc (position xs a))"

text \<open>
  The order of a stable ascending sort: the smaller key first, and of two equal keys the
  lower index first. The order of a ranking is its reverse: the higher score first, and
  of two equal scores the higher index first.
\<close>

definition sorts_before :: "(nat \<Rightarrow> score) \<Rightarrow> nat \<Rightarrow> nat \<Rightarrow> bool" where
  "sorts_before key a b \<longleftrightarrow> float_lt (key a) (key b) \<or> (key a = key b \<and> a < b)"

definition ranks_before :: "score list \<Rightarrow> nat \<Rightarrow> nat \<Rightarrow> bool" where
  "ranks_before distances a b \<longleftrightarrow>
     float_lt (distances ! b) (distances ! a) \<or> (distances ! a = distances ! b \<and> b < a)"

section \<open>Recommendations\<close>

text \<open>
  \<^verbatim>\<open>query_embedding = embeddings[index_of_source_string]
  distances = distances_from_embeddings(query_embedding, embeddings)
  indices_of_nearest_neighbors = indices_of_closest_matches_from_distances(distances)\<close>
\<close>

definition nearest_neighbors ::
    "runtime \<Rightarrow> embedding list \<Rightarrow> int \<Rightarrow> error + (score list \<times> nat list)" where
  "nearest_neighbors R embeddings index_of_source_string =
     (case py_getitem embeddings index_of_source_string of
        Inl e \<Rightarrow> Inl e
      | Inr query_embedding \<Rightarrow>
          (case distances_from_embeddings R query_embedding embeddings of
             Inl e \<Rightarrow> Inl e
           | Inr distances \<Rightarrow>
               Inr (distances, indices_of_closest_matches_from_distances R distances)))"

text \<open>
  \<^verbatim>\<open>k_counter = 0
  for i in indices_of_nearest_neighbors:
      if query_string == strings[i]:
          continue
      if k_counter >= k_nearest_neighbors:
          break
      k_counter += 1
      print(...)\<close>
  The loop's result in the model is what it prints: the indices \<open>i\<close> of the printed
  recommendations, in the order printed (the text printed for \<open>i\<close> is its number in that
  order, \<open>strings[i]\<close> and \<open>distances[i]\<close>).
\<close>

fun recommendations :: "string list \<Rightarrow> string \<Rightarrow> int \<Rightarrow> int \<Rightarrow> nat list \<Rightarrow> nat list" where
  "recommendations strings query_string k_nearest_neighbors k_counter [] = []"
| "recommendations strings query_string k_nearest_neighbors k_counter (i # is) =
     (if query_string = strings ! i
        then recommendations strings query_string k_nearest_neighbors k_counter is
      else if k_counter \<ge> k_nearest_neighbors then []
      else i # recommendations strings query_string k_nearest_neighbors (k_counter + 1) is)"

text \<open>
  \<open>print_recommendations_from_strings\<close>: the pair of what is printed and what is
  returned, which is \<open>indices_of_nearest_neighbors\<close>.
\<close>

definition print_recommendations_from_strings ::
    "env \<Rightarrow> runtime \<Rightarrow> string list \<Rightarrow> int \<Rightarrow> int \<Rightarrow> string \<Rightarrow> world
      \<Rightarrow> (error + (nat list \<times> nat list)) \<times> world" where
  "print_recommendations_from_strings E R strings index_of_source_string k_nearest_neighbors model w =
     (case embeddings_from_strings E strings model w of
        (Inl e, w') \<Rightarrow> (Inl e, w')
      | (Inr embeddings, w') \<Rightarrow>
          (case nearest_neighbors R embeddings index_of_source_string of
             Inl e \<Rightarrow> (Inl e, w')
           | Inr (distances, indices_of_nearest_neighbors) \<Rightarrow>
               (case py_getitem strings index_of_source_string of
                  Inl e \<Rightarrow> (Inl e, w')
                | Inr query_string \<Rightarrow>
                    (Inr (recommendations strings query_string k_nearest_neighbors 0
                            indices_of_nearest_neighbors,
                          indices_of_nearest_neighbors), w'))))"

section \<open>Example environments\<close>

text \<open>
  Concrete providers, disks and a starting state, on which the theorems below are
  evaluated: a provider that always raises, one that answers with a unit vector, the
  same with a disk that cannot be written, and the state of a session that started
  without a cache file.
\<close>

definition no_provider :: env where
  "no_provider = \<lparr>get_embedding = (\<lambda>h s m. Inl APIError), disk = (\<lambda>n. Written)\<rparr>"

definition axis_provider :: env where
  "axis_provider =
     \<lparr>get_embedding = (\<lambda>h s m. Inr (if s = ''A'' then [1, 0] else [0, 1])),
      disk = (\<lambda>n. Written)\<rparr>"

definition read_only_disk :: env where
  "read_only_disk =
     \<lparr>get_embedding = (\<lambda>h s m. Inr (if s = ''A'' then [1, 0] else [0, 1])),
      disk = (\<lambda>n. OpenFails)\<rparr>"

definition empty_session :: world where
  "empty_session =
     \<lparr>embedding_cache = Map.empty, cache_file = Pickled Map.empty, requests = [], writes = 1\<rparr>"

text \<open>
  A disk on which one write fails (the first after the startup of \<open>empty_session\<close>) and
  every other goes through, and a provider that answers one text with the zero vector.
\<close>

definition failing_once :: env where
  "failing_once =
     \<lparr>get_embedding = (\<lambda>h s m. Inr (if s = ''A'' then [1, 0] else [0, 1])),
      disk = (\<lambda>n. if n = 1 then OpenFails else Written)\<rparr>"

definition zero_provider :: env where
  "zero_provider =
     \<lparr>get_embedding =
        (\<lambda>h s m. Inr (if s = ''A'' then [1, 0] else if s = ''Z'' then [0, 0] else [0, 1])),
      disk = (\<lambda>n. Written)\<rparr>"

text \<open>
  An arithmetic that does not round. The theorems below are evaluated with it at inputs
  on which float64 arithmetic is exact too (zeros and ones, their sums, products,
  quotients and square roots); both operands are then finite.
\<close>

fun exact_multiply :: "score \<Rightarrow> score \<Rightarrow> score" where
  "exact_multiply (Finite x) (Finite y) = Finite (x * y)"
| "exact_multiply x y = NaN"

fun exact_divide :: "score \<Rightarrow> score \<Rightarrow> score" where
  "exact_divide (Finite x) (Finite y) =
     (if y \<noteq> 0 then Finite (x / y)
      else if x = 0 then NaN
      else if 0 < x then PlusInf else MinusInf)"
| "exact_divide x y = NaN"

definition exact_numpy :: runtime where
  "exact_numpy =
     \<lparr>np_dot = (\<lambda>a b. Finite (sum_list (map2 (*) a b))),
      np_norm = (\<lambda>a. Finite (sqrt (sum_list (map (\<lambda>x. x\<^sup>2) a)))),
      np_multiply = exact_multiply,
      np_divide = exact_divide,
      list_sort_long = (\<lambda>distances i. i)\<rparr>"

section \<open>Properties of the sort\<close>

lemma float_lt_trans: "float_lt x y \<Longrightarrow> float_lt y z \<Longrightarrow> float_lt x z"
  by (cases x; cases y; cases z) simp_all

lemma float_lt_irrefl: "\<not> float_lt x x"
  by (cases x) simp_all

lemma float_lt_asym: "float_lt x y \<Longrightarrow> \<not> float_lt y x"
  by (cases x; cases y) simp_all

lemma float_lt_total: "x \<noteq> NaN \<Longrightarrow> y \<noteq> NaN \<Longrightarrow> float_lt x y \<or> x = y \<or> float_lt y x"
  by (cases x; cases y) auto

lemma float_lt_le_trans:
  "float_lt x y \<Longrightarrow> \<not> float_lt z y \<Longrightarrow> y \<noteq> NaN \<Longrightarrow> z \<noteq> NaN \<Longrightarrow> float_lt x z"
  by (cases x; cases y; cases z) auto

lemma bisect_step:
  "l < r \<Longrightarrow> float_lt (key pivot) (key (xs ! (l + (r - l) div 2))) \<Longrightarrow>
     bisect key pivot xs l r = bisect key pivot xs l (l + (r - l) div 2)"
  "l < r \<Longrightarrow> \<not> float_lt (key pivot) (key (xs ! (l + (r - l) div 2))) \<Longrightarrow>
     bisect key pivot xs l r = bisect key pivot xs (l + (r - l) div 2 + 1) r"
  "\<not> l < r \<Longrightarrow> bisect key pivot xs l r = l"
  by (subst bisect.simps, simp add: Let_def)+

text \<open>Whatever the comparisons answer, the sort returns a permutation.\<close>

lemma mset_take_drop: "mset (take n xs) + mset (drop n xs) = mset xs"
  by (metis append_take_drop_id mset_append)

lemma mset_binarysort: "mset (binarysort key run rest) = mset run + mset rest"
  by (induction rest arbitrary: run) (simp_all add: Let_def mset_take_drop)

lemma mset_list_sort_short: "mset (list_sort_short key xs) = mset xs"
  by (auto simp: list_sort_short_def mset_binarysort mset_take_drop split: prod.splits)

text \<open>
  On keys without NaN the sort orders the indices by key, two indices of equal keys by
  index: the result of a stable sort.
\<close>

lemma sorts_before_trans:
  "sorts_before key a b \<Longrightarrow> sorts_before key b c \<Longrightarrow> sorts_before key a c"
  unfolding sorts_before_def by (auto intro: float_lt_trans)

lemma sorts_before_if_not_lt:
  "key a \<noteq> NaN \<Longrightarrow> key b \<noteq> NaN \<Longrightarrow> \<not> float_lt (key b) (key a) \<Longrightarrow> a < b \<Longrightarrow>
   sorts_before key a b"
  unfolding sorts_before_def using float_lt_total [of "key a" "key b"] by auto

lemma sorts_before_not_lt: "sorts_before key a b \<Longrightarrow> \<not> float_lt (key b) (key a)"
  unfolding sorts_before_def by (auto simp: float_lt_irrefl dest: float_lt_asym)

lemma run_ascending_sorted:
  "sorted_wrt (<) (p # xs) \<Longrightarrow> \<forall>x\<in>set (p # xs). key x \<noteq> NaN \<Longrightarrow>
   sorted_wrt (sorts_before key) (p # take (run_ascending key p xs) xs)"
proof (induction xs arbitrary: p)
  case Nil
  then show ?case by simp
next
  case (Cons x xs)
  show ?case
  proof (cases "float_lt (key x) (key p)")
    case True
    then show ?thesis by simp
  next
    case False
    from Cons.prems have "sorted_wrt (<) (x # xs)" and "\<forall>y\<in>set (x # xs). key y \<noteq> NaN"
      by simp_all
    then have tail: "sorted_wrt (sorts_before key) (x # take (run_ascending key x xs) xs)"
      by (rule Cons.IH)
    from Cons.prems False have px: "sorts_before key p x"
      by (intro sorts_before_if_not_lt) simp_all
    with tail have "\<forall>y\<in>set (x # take (run_ascending key x xs) xs). sorts_before key p y"
      by (auto intro: sorts_before_trans)
    with tail False show ?thesis by simp
  qed
qed

lemma run_descending_sorted:
  "sorted_wrt (\<lambda>a b. float_lt (key b) (key a)) (p # take (run_descending key p xs) xs)"
proof (induction xs arbitrary: p)
  case Nil
  then show ?case by simp
next
  case (Cons x xs)
  show ?case
  proof (cases "float_lt (key x) (key p)")
    case False
    then show ?thesis by simp
  next
    case True
    have tail: "sorted_wrt (\<lambda>a b. float_lt (key b) (key a)) (x # take (run_descending key x xs) xs)"
      by (rule Cons.IH)
    with True have "\<forall>y\<in>set (x # take (run_descending key x xs) xs). float_lt (key y) (key p)"
      by (auto intro: float_lt_trans)
    with tail True show ?thesis by simp
  qed
qed

lemma count_run_Cons:
  "rest \<noteq> [] \<Longrightarrow>
   count_run key (x # rest) =
     (if float_lt (key (hd rest)) (key x) then (Suc (run_descending key x rest), True)
      else (Suc (run_ascending key x rest), False))"
  by (cases rest) simp_all

lemma count_run_sorted:
  assumes "sorted_wrt (<) xs" and "\<forall>x\<in>set xs. key x \<noteq> NaN" and "2 \<le> length xs"
    and "count_run key xs = (n, descending)"
  shows "sorted_wrt (sorts_before key) (if descending then rev (take n xs) else take n xs)"
proof -
  from assms(3) obtain x rest where xs: "xs = x # rest"
    by (cases xs) auto
  with assms(3) have rest: "rest \<noteq> []" by auto
  show ?thesis
  proof (cases "float_lt (key (hd rest)) (key x)")
    case True
    with assms(4) xs rest have n: "n = Suc (run_descending key x rest)" and d: descending
      by (simp_all add: count_run_Cons)
    have "sorted_wrt (\<lambda>a b. float_lt (key b) (key a)) (x # take (run_descending key x rest) rest)"
      by (rule run_descending_sorted)
    then have "sorted_wrt (\<lambda>a b. float_lt (key a) (key b)) (rev (take n xs))"
      unfolding n xs by (simp only: take_Suc_Cons sorted_wrt_rev)
    then have "sorted_wrt (sorts_before key) (rev (take n xs))"
      by (rule sorted_wrt_mono_rel [rotated]) (simp add: sorts_before_def)
    with d show ?thesis by simp
  next
    case False
    with assms(4) xs rest have n: "n = Suc (run_ascending key x rest)" and d: "\<not> descending"
      by (simp_all add: count_run_Cons)
    have "sorted_wrt (sorts_before key) (x # take (run_ascending key x rest) rest)"
      using assms(1,2) unfolding xs by (rule run_ascending_sorted)
    with d show ?thesis unfolding n xs by simp
  qed
qed

lemma bisect_position:
  assumes "sorted_wrt (\<lambda>a b. \<not> float_lt (key b) (key a)) xs"
    and "\<forall>x\<in>set xs. key x \<noteq> NaN" and "key pivot \<noteq> NaN"
    and "l \<le> r" and "r \<le> length xs"
    and "\<forall>i<l. \<not> float_lt (key pivot) (key (xs ! i))"
    and "\<forall>i. r \<le> i \<and> i < length xs \<longrightarrow> float_lt (key pivot) (key (xs ! i))"
  shows "(\<forall>i<bisect key pivot xs l r. \<not> float_lt (key pivot) (key (xs ! i))) \<and>
         (\<forall>i. bisect key pivot xs l r \<le> i \<and> i < length xs \<longrightarrow> float_lt (key pivot) (key (xs ! i)))"
  using assms
proof (induction key pivot xs l r rule: bisect.induct)
  case (1 key pivot xs l r)
  show ?case
  proof (cases "l < r")
    case False
    with "1.prems" have "l = r" by simp
    with "1.prems" show ?thesis by (simp add: bisect_step)
  next
    case True
    let ?p = "l + (r - l) div 2"
    from True "1.prems" have p: "l \<le> ?p" "?p < r" "?p < length xs" by simp_all
    have nn: "key (xs ! i) \<noteq> NaN" if "i < length xs" for i
      using "1.prems"(2) that by simp
    have ordered: "\<not> float_lt (key (xs ! j)) (key (xs ! i))" if "i < j" "j < length xs" for i j
      using "1.prems"(1) that by (simp add: sorted_wrt_iff_nth_less)
    show ?thesis
    proof (cases "float_lt (key pivot) (key (xs ! ?p))")
      case lt: True
      have upper: "\<forall>i. ?p \<le> i \<and> i < length xs \<longrightarrow> float_lt (key pivot) (key (xs ! i))"
      proof (intro allI impI)
        fix i assume i: "?p \<le> i \<and> i < length xs"
        show "float_lt (key pivot) (key (xs ! i))"
        proof (cases "i = ?p")
          case True
          with lt show ?thesis by simp
        next
          case False
          with i have "\<not> float_lt (key (xs ! i)) (key (xs ! ?p))" by (intro ordered) simp_all
          moreover have "key (xs ! i) \<noteq> NaN" "key (xs ! ?p) \<noteq> NaN"
            using nn i p(3) by simp_all
          ultimately show ?thesis using lt float_lt_le_trans by blast
        qed
      qed
      from "1.IH"(1) [OF True refl lt "1.prems"(1,2,3) p(1) _ "1.prems"(6) upper] p
      have "(\<forall>i<bisect key pivot xs l ?p. \<not> float_lt (key pivot) (key (xs ! i))) \<and>
         (\<forall>i. bisect key pivot xs l ?p \<le> i \<and> i < length xs \<longrightarrow> float_lt (key pivot) (key (xs ! i)))"
        by simp
      moreover have "bisect key pivot xs l r = bisect key pivot xs l ?p"
        using True lt by (rule bisect_step(1))
      ultimately show ?thesis by (simp only:)
    next
      case ge: False
      have lower: "\<forall>i<?p + 1. \<not> float_lt (key pivot) (key (xs ! i))"
      proof (intro allI impI)
        fix i assume i: "i < ?p + 1"
        show "\<not> float_lt (key pivot) (key (xs ! i))"
        proof (cases "i = ?p")
          case True
          with ge show ?thesis by simp
        next
          case False
          with i p have "\<not> float_lt (key (xs ! ?p)) (key (xs ! i))" by (intro ordered) simp_all
          moreover have "key (xs ! i) \<noteq> NaN" "key (xs ! ?p) \<noteq> NaN"
            using nn i p(3) by simp_all
          ultimately show ?thesis using ge float_lt_le_trans by blast
        qed
      qed
      from p "1.prems" have "?p + 1 \<le> r" by simp
      from "1.IH"(2) [OF True refl ge "1.prems"(1,2,3) this "1.prems"(5) lower "1.prems"(7)]
      have "(\<forall>i<bisect key pivot xs (?p + 1) r. \<not> float_lt (key pivot) (key (xs ! i))) \<and>
         (\<forall>i. bisect key pivot xs (?p + 1) r \<le> i \<and> i < length xs \<longrightarrow> float_lt (key pivot) (key (xs ! i)))"
        by simp
      moreover have "bisect key pivot xs l r = bisect key pivot xs (?p + 1) r"
        using True ge by (rule bisect_step(2))
      ultimately show ?thesis by (simp only:)
    qed
  qed
qed

lemma insert_at_bisect_sorted:
  assumes sorted: "sorted_wrt (sorts_before key) run"
    and nn: "\<forall>x\<in>set run. key x \<noteq> NaN" "key pivot \<noteq> NaN"
    and earlier: "\<forall>x\<in>set run. x < pivot"
  shows "sorted_wrt (sorts_before key)
           (take (bisect key pivot run 0 (length run)) run @
            pivot # drop (bisect key pivot run 0 (length run)) run)"
proof -
  let ?l = "bisect key pivot run 0 (length run)"
  have "sorted_wrt (\<lambda>a b. \<not> float_lt (key b) (key a)) run"
    by (rule sorted_wrt_mono_rel [OF _ sorted]) (rule sorts_before_not_lt)
  moreover have "(0::nat) \<le> length run" and "length run \<le> length run"
    and "\<forall>i<0::nat. \<not> float_lt (key pivot) (key (run ! i))"
    by simp_all
  moreover have "\<forall>i. length run \<le> i \<and> i < length run \<longrightarrow> float_lt (key pivot) (key (run ! i))"
    by auto
  ultimately have "(\<forall>i<?l. \<not> float_lt (key pivot) (key (run ! i))) \<and>
      (\<forall>i. ?l \<le> i \<and> i < length run \<longrightarrow> float_lt (key pivot) (key (run ! i)))"
    using nn by (intro bisect_position)
  then have left: "\<forall>i<?l. \<not> float_lt (key pivot) (key (run ! i))"
    and right: "\<forall>i. ?l \<le> i \<and> i < length run \<longrightarrow> float_lt (key pivot) (key (run ! i))"
    by blast+
  from sorted have split: "sorted_wrt (sorts_before key) (take ?l run @ drop ?l run)"
    by (simp only: append_take_drop_id)
  have before: "sorts_before key x pivot" if "x \<in> set (take ?l run)" for x
  proof -
    from that obtain i where "i < length (take ?l run)" "take ?l run ! i = x"
      unfolding in_set_conv_nth by blast
    then have "i < ?l" "i < length run" "run ! i = x" by simp_all
    with left have "\<not> float_lt (key pivot) (key x)" by blast
    moreover from that have "x \<in> set run" by (rule in_set_takeD)
    ultimately show ?thesis using nn earlier by (intro sorts_before_if_not_lt) simp_all
  qed
  have after: "sorts_before key pivot y" if "y \<in> set (drop ?l run)" for y
  proof -
    from that obtain k where "k < length (drop ?l run)" "drop ?l run ! k = y"
      unfolding in_set_conv_nth by blast
    then have "?l \<le> ?l + k" "?l + k < length run" "run ! (?l + k) = y" by simp_all
    then obtain i where "?l \<le> i" "i < length run" "run ! i = y" by blast
    with right have "float_lt (key pivot) (key y)" by blast
    then show ?thesis by (simp add: sorts_before_def)
  qed
  from split have front: "sorted_wrt (sorts_before key) (take ?l run)"
    and behind: "sorted_wrt (sorts_before key) (drop ?l run)"
    and across: "\<forall>x\<in>set (take ?l run). \<forall>y\<in>set (drop ?l run). sorts_before key x y"
    unfolding sorted_wrt_append by blast+
  show ?thesis
    unfolding sorted_wrt_append
  proof (intro conjI ballI)
    show "sorted_wrt (sorts_before key) (take ?l run)" by (rule front)
    show "sorted_wrt (sorts_before key) (pivot # drop ?l run)"
      using behind after by simp
    fix x y
    assume x: "x \<in> set (take ?l run)" and "y \<in> set (pivot # drop ?l run)"
    then have "y = pivot \<or> y \<in> set (drop ?l run)" by simp
    then show "sorts_before key x y"
      using before [OF x] across x by blast
  qed
qed

lemma binarysort_sorted:
  "sorted_wrt (sorts_before key) run \<Longrightarrow> sorted_wrt (<) rest \<Longrightarrow>
   \<forall>x\<in>set run. \<forall>y\<in>set rest. x < y \<Longrightarrow>
   \<forall>x\<in>set run \<union> set rest. key x \<noteq> NaN \<Longrightarrow>
   sorted_wrt (sorts_before key) (binarysort key run rest)"
proof (induction rest arbitrary: run)
  case Nil
  then show ?case by simp
next
  case (Cons pivot rest)
  let ?run = "take (bisect key pivot run 0 (length run)) run @
              pivot # drop (bisect key pivot run 0 (length run)) run"
  have "sorted_wrt (sorts_before key) ?run"
    using Cons.prems by (intro insert_at_bisect_sorted) simp_all
  moreover have "sorted_wrt (<) rest" using Cons.prems(2) by simp
  moreover have "set (take (bisect key pivot run 0 (length run)) run) \<union>
      set (drop (bisect key pivot run 0 (length run)) run) = set run"
    by (metis append_take_drop_id set_append)
  then have "set ?run = insert pivot (set run)"
    by simp
  then have "\<forall>x\<in>set ?run. \<forall>y\<in>set rest. x < y" and "\<forall>x\<in>set ?run \<union> set rest. key x \<noteq> NaN"
    using Cons.prems(2,3,4) by auto
  ultimately have "sorted_wrt (sorts_before key) (binarysort key ?run rest)"
    by (rule Cons.IH)
  then show ?case by (simp add: Let_def)
qed

lemma list_sort_short_sorted:
  assumes "sorted_wrt (<) xs" and "\<forall>x\<in>set xs. key x \<noteq> NaN"
  shows "sorted_wrt (sorts_before key) (list_sort_short key xs)"
proof (cases "length xs < 2")
  case True
  then have "xs = [] \<or> (\<exists>x. xs = [x])"
    by (cases xs) (auto simp: less_Suc_eq_0_disj)
  with True show ?thesis by (auto simp: list_sort_short_def)
next
  case False
  obtain n descending where run: "count_run key xs = (n, descending)"
    by (cases "count_run key xs")
  let ?run = "if descending then rev (take n xs) else take n xs"
  from False have "2 \<le> length xs" by simp
  with assms have "sorted_wrt (sorts_before key) ?run"
    using run by (rule count_run_sorted)
  moreover from assms(1) have split: "sorted_wrt (<) (take n xs @ drop n xs)"
    by (simp only: append_take_drop_id)
  then have "sorted_wrt (<) (drop n xs)" unfolding sorted_wrt_append by blast
  moreover from split have "\<forall>x\<in>set (take n xs). \<forall>y\<in>set (drop n xs). x < y"
    unfolding sorted_wrt_append by blast
  then have "\<forall>x\<in>set ?run. \<forall>y\<in>set (drop n xs). x < y"
    by simp
  moreover have "\<forall>x\<in>set ?run \<union> set (drop n xs). key x \<noteq> NaN"
    using assms(2) by (auto dest: in_set_takeD in_set_dropD)
  ultimately have "sorted_wrt (sorts_before key) (binarysort key ?run (drop n xs))"
    by (rule binarysort_sorted)
  with False run show ?thesis by (simp add: list_sort_short_def)
qed

section \<open>Properties of the ranking\<close>

text \<open>Whatever the scores are, the ranking is a permutation of all indices.\<close>

lemma sorted_range_mset: "mset (sorted_range R distances) = mset [0..<length distances]"
  unfolding sorted_range_def by (simp add: mset_list_sort_short del: mset_upt)

lemma ranking_mset:
  "mset (indices_of_closest_matches_from_distances R distances) = mset [0..<length distances]"
  unfolding indices_of_closest_matches_from_distances_def mset_rev
  by (rule sorted_range_mset)

lemma ranking_set:
  "set (indices_of_closest_matches_from_distances R distances) = {0..<length distances}"
  using ranking_mset [of R distances] by (metis mset_eq_setD set_upt)

lemma ranking_sorted_wrt:
  assumes "NaN \<notin> set distances"
  shows "sorted_wrt (ranks_before distances)
           (indices_of_closest_matches_from_distances R distances)"
proof -
  have "\<forall>i\<in>set [0..<length distances]. distances ! i \<noteq> NaN"
    using assms by (metis atLeastLessThan_iff nth_mem set_upt)
  moreover have "sorted_wrt (<) [0..<length distances]" by simp
  ultimately have "sorted_wrt (sorts_before (\<lambda>i. distances ! i))
      (list_sort_short (\<lambda>i. distances ! i) [0..<length distances])"
    by (intro list_sort_short_sorted)
  then have "sorted_wrt (\<lambda>a b. ranks_before distances b a)
      (list_sort_short (\<lambda>i. distances ! i) [0..<length distances])"
    by (rule sorted_wrt_mono_rel [rotated]) (auto simp: ranks_before_def sorts_before_def)
  then have "sorted_wrt (\<lambda>a b. ranks_before distances b a) (sorted_range R distances)"
    using assms by (simp add: sorted_range_def)
  then show ?thesis
    by (simp add: indices_of_closest_matches_from_distances_def sorted_wrt_rev)
qed

lemma short_ranking:
  "length distances < 64 \<Longrightarrow>
   indices_of_closest_matches_from_distances R distances =
     rev (list_sort_short (\<lambda>i. distances ! i) [0..<length distances])"
  by (simp add: indices_of_closest_matches_from_distances_def sorted_range_def)

lemma ranks_before_not_lt:
  "ranks_before distances a b \<Longrightarrow> \<not> float_lt (distances ! a) (distances ! b)"
  unfolding ranks_before_def by (auto simp: float_lt_irrefl dest: float_lt_asym)

lemma ranks_before_asym: "ranks_before distances a b \<Longrightarrow> \<not> ranks_before distances b a"
  unfolding ranks_before_def by (auto simp: float_lt_irrefl dest: float_lt_asym)

lemma ranking_non_increasing:
  assumes "NaN \<notin> set distances"
  shows "sorted_wrt (\<lambda>a b. \<not> float_lt a b)
           (map ((!) distances) (indices_of_closest_matches_from_distances R distances))"
proof -
  have "sorted_wrt (\<lambda>a b. \<not> float_lt (distances ! a) (distances ! b))
          (indices_of_closest_matches_from_distances R distances)"
    by (rule sorted_wrt_mono_rel [OF _ ranking_sorted_wrt [OF assms]])
       (rule ranks_before_not_lt)
  then show ?thesis by (simp add: sorted_wrt_map)
qed

lemma position_less_length: "a \<in> set xs \<Longrightarrow> position xs a < length xs"
  by (induction xs) auto

lemma nth_position: "a \<in> set xs \<Longrightarrow> xs ! position xs a = a"
  by (induction xs) auto

lemma sorted_wrt_position:
  assumes "sorted_wrt R xs" and "a \<in> set xs" and "b \<in> set xs"
    and "a \<noteq> b" and "\<not> R b a"
  shows "position xs a < position xs b"
proof (rule ccontr)
  assume "\<not> position xs a < position xs b"
  moreover have "position xs a \<noteq> position xs b"
    using assms(2-4) nth_position by metis
  ultimately have "position xs b < position xs a" by simp
  with assms(1) position_less_length [OF assms(2)]
  have "R (xs ! position xs b) (xs ! position xs a)"
    by (simp add: sorted_wrt_nth_less)
  with assms show False by (simp add: nth_position)
qed

lemma position_sorted_wrt:
  assumes "sorted_wrt R xs" and "a \<in> set xs" and "b \<in> set xs"
    and "position xs a < position xs b"
  shows "R a b"
proof -
  from assms(1,4) position_less_length [OF assms(3)]
  have "R (xs ! position xs a) (xs ! position xs b)"
    by (simp add: sorted_wrt_nth_less)
  with assms(2,3) show ?thesis by (simp add: nth_position)
qed

text \<open>
  C1 (as stated): among equal scores the lower original index comes first. The reversal
  after the stable ascending sort puts the higher index first: with two equal scores,
  index 1 is ranked before index 0.
\<close>

theorem ranking_tie_lower_index_first_counterexample:
  "[Finite 1, Finite 1] ! 0 = [Finite 1, Finite 1] ! 1 \<and>
   \<not> position (indices_of_closest_matches_from_distances exact_numpy [Finite 1, Finite 1]) 0
       < position (indices_of_closest_matches_from_distances exact_numpy [Finite 1, Finite 1]) 1"
proof -
  have "indices_of_closest_matches_from_distances exact_numpy [Finite 1, Finite 1] = [1, 0]"
    by (simp add: indices_of_closest_matches_from_distances_def sorted_range_def
        list_sort_short_def)
  then show ?thesis by simp
qed

text \<open>
  C1 (amended): when no score is NaN, whenever two indices have equal scores the index
  with the higher original position appears before the one with the lower original
  position in the ranking.
\<close>

theorem ranking_tie_higher_index_first:
  assumes "NaN \<notin> set distances"
    and "i < j" and "j < length distances" and "distances ! i = distances ! j"
  shows "position (indices_of_closest_matches_from_distances R distances) j
       < position (indices_of_closest_matches_from_distances R distances) i"
proof (rule sorted_wrt_position [OF ranking_sorted_wrt [OF assms(1)]])
  have "set (indices_of_closest_matches_from_distances R distances) = {0..<length distances}"
    by (rule ranking_set)
  then show "j \<in> set (indices_of_closest_matches_from_distances R distances)"
    and "i \<in> set (indices_of_closest_matches_from_distances R distances)"
    using assms by simp_all
  show "j \<noteq> i" using assms by simp
  show "\<not> ranks_before distances i j"
    using assms by (simp add: ranks_before_def float_lt_irrefl)
qed

theorem ranking_tie_higher_index_first_witness:
  "NaN \<notin> set [Finite 5, Finite 7, Finite 5] \<and>
   (0::nat) < 2 \<and> 2 < length [Finite 5, Finite 7, Finite 5] \<and>
   [Finite 5, Finite 7, Finite 5] ! 0 = [Finite 5, Finite 7, Finite 5] ! 2 \<and>
   indices_of_closest_matches_from_distances exact_numpy [Finite 5, Finite 7, Finite 5] =
     [1, 2, 0] \<and>
   position [1, 2, 0 :: nat] 2 < position [1, 2, 0 :: nat] 0"
proof -
  have "indices_of_closest_matches_from_distances exact_numpy [Finite 5, Finite 7, Finite 5] =
      rev (list_sort_short (\<lambda>i. [Finite 5, Finite 7, Finite 5] ! i)
        [0..<length [Finite 5, Finite 7, Finite 5]])"
    by (rule short_ranking) simp
  also have "\<dots> = [1, 2, 0]" by code_simp
  finally have ranking: "indices_of_closest_matches_from_distances exact_numpy
      [Finite 5, Finite 7, Finite 5] = [1, 2, 0]" .
  have "position (indices_of_closest_matches_from_distances exact_numpy
          [Finite 5, Finite 7, Finite 5]) 2
      < position (indices_of_closest_matches_from_distances exact_numpy
          [Finite 5, Finite 7, Finite 5]) 0"
    by (rule ranking_tie_higher_index_first) simp_all
  then show ?thesis by (simp add: ranking)
qed

text \<open>
  Why C1 needs scores without NaN: a NaN compares false with everything, and the
  insertion then passes over it. Here indices 4 and 6 have the same score and the
  lower comes first.
\<close>

lemma ranking_tie_with_nan:
  "indices_of_closest_matches_from_distances exact_numpy
     [Finite 3, Finite 4, Finite 5, NaN, Finite 1, Finite 0, Finite 1] = [4, 3, 2, 1, 0, 6, 5]"
proof -
  have "indices_of_closest_matches_from_distances exact_numpy
      [Finite 3, Finite 4, Finite 5, NaN, Finite 1, Finite 0, Finite 1] =
      rev (list_sort_short
        (\<lambda>i. [Finite 3, Finite 4, Finite 5, NaN, Finite 1, Finite 0, Finite 1] ! i)
        [0..<length [Finite 3, Finite 4, Finite 5, NaN, Finite 1, Finite 0, Finite 1]])"
    by (rule short_ranking) simp
  also have "\<dots> = [4, 3, 2, 1, 0, 6, 5]" by code_simp
  finally show ?thesis .
qed

section \<open>Properties of the cache\<close>

lemma pickle_dump_memory:
  "embedding_cache (snd (pickle_dump E w)) = embedding_cache w"
  "requests (snd (pickle_dump E w)) = requests w"
  by (simp_all add: pickle_dump_def split: write_outcome.splits)

lemma lookup_hit:
  "embedding_cache w (s, m) = Some v \<Longrightarrow> embedding_from_string E s m w = (Inr v, w)"
  by (simp add: embedding_from_string_def)

lemma lookup_state:
  "snd (embedding_from_string E s m w) =
     (case embedding_cache w (s, m) of
        Some v \<Rightarrow> w
      | None \<Rightarrow>
          (case get_embedding E (requests w) s m of
             Inl e \<Rightarrow> w\<lparr>requests := requests w @ [((s, m), Inl e)]\<rparr>
           | Inr v \<Rightarrow>
               snd (pickle_dump E
                      (w\<lparr>requests := requests w @ [((s, m), Inr v)],
                         embedding_cache := (embedding_cache w)((s, m) \<mapsto> v)\<rparr>))))"
  by (simp add: embedding_from_string_def split: option.splits sum.splits prod.splits)

lemma lookup_keeps_entry:
  "embedding_cache w k = Some v \<Longrightarrow>
   embedding_cache (snd (embedding_from_string E s m w)) k = Some v"
  by (auto simp: lookup_state pickle_dump_memory split: option.splits sum.splits)

lemma lookup_keeps_requests:
  "embedding_cache w k = Some v \<Longrightarrow>
   requests (snd (embedding_from_string E s m w)) = requests w \<or>
   (\<exists>r. fst r \<noteq> k \<and> requests (snd (embedding_from_string E s m w)) = requests w @ [r])"
  by (auto simp: lookup_state pickle_dump_memory split: option.splits sum.splits)

lemma lookup_keeps_requests_for:
  assumes "embedding_cache w k = Some v"
  shows "requests_for k (snd (embedding_from_string E s m w)) = requests_for k w"
  using lookup_keeps_requests [OF assms, of E s m] by (auto simp: requests_for_def)

lemma lookup_keeps_computations:
  assumes "embedding_cache w k = Some v"
  shows "computations k (snd (embedding_from_string E s m w)) = computations k w"
  using lookup_keeps_requests [OF assms, of E s m] by (auto simp: computations_def)

lemma lookups_keep_entry:
  "embedding_cache w k = Some v \<Longrightarrow>
   embedding_cache (lookups E ks w) k = Some v \<and>
   requests_for k (lookups E ks w) = requests_for k w \<and>
   computations k (lookups E ks w) = computations k w"
proof (induction ks arbitrary: w)
  case Nil
  then show ?case by simp
next
  case (Cons a ks)
  from Cons.prems have "embedding_cache (snd (embedding_from_string E (fst a) (snd a) w)) k = Some v"
    by (rule lookup_keeps_entry)
  from Cons.IH [OF this] Cons.prems show ?case
    by (simp add: lookup_keeps_requests_for lookup_keeps_computations)
qed

lemma lookup_miss_cases:
  assumes "embedding_cache w k = None"
  shows "(embedding_cache (snd (embedding_from_string E s m w)) k = None \<and>
          computations k (snd (embedding_from_string E s m w)) = computations k w) \<or>
         ((\<exists>v. embedding_cache (snd (embedding_from_string E s m w)) k = Some v) \<and>
          computations k (snd (embedding_from_string E s m w)) = computations k w + 1)"
  using assms
  by (cases "k = (s, m)")
     (auto simp: lookup_state pickle_dump_memory computations_def split: option.splits sum.splits)

lemma lookups_compute_once:
  "computations k (lookups E ks w) \<le> computations k w + 1"
proof (induction ks arbitrary: w)
  case Nil
  then show ?case by simp
next
  case (Cons a ks)
  let ?w = "snd (embedding_from_string E (fst a) (snd a) w)"
  show ?case
  proof (cases "embedding_cache w k")
    case (Some v)
    then show ?thesis using lookups_keep_entry [of w k v E "a # ks"] by simp
  next
    case None
    from lookup_miss_cases [OF None, of E "fst a" "snd a"] show ?thesis
    proof
      assume "embedding_cache ?w k = None \<and> computations k ?w = computations k w"
      with Cons.IH [of ?w] show ?thesis by simp
    next
      assume "(\<exists>v. embedding_cache ?w k = Some v) \<and> computations k ?w = computations k w + 1"
      then obtain v where "embedding_cache ?w k = Some v"
        and "computations k ?w = computations k w + 1" by blast
      with lookups_keep_entry [of ?w k v E ks] show ?thesis by simp
    qed
  qed
qed


lemma lookup_returns_cached:
  "embedding_from_string E t m w = (Inr v, w1) \<Longrightarrow> embedding_cache w1 (t, m) = Some v"
  by (auto simp: embedding_from_string_def pickle_dump_def
           split: option.splits sum.splits prod.splits write_outcome.splits)

lemma lookup_synced:
  assumes "\<forall>n. disk E n = Written" and "cache_file w = Pickled (embedding_cache w)"
  shows "cache_file (snd (embedding_from_string E s m w)) =
         Pickled (embedding_cache (snd (embedding_from_string E s m w)))"
  using assms by (simp add: lookup_state pickle_dump_def split: option.splits sum.splits)

lemma restart_synced:
  assumes "\<forall>n. disk E n = Written" and "cache_file w = Pickled (embedding_cache w)"
  shows "restart E w = (Inr (), w\<lparr>writes := Suc (writes w)\<rparr>)"
  using assms by (simp add: restart_def read_pickle_def pickle_dump_def)

lemma lifetime_keeps_entry:
  assumes "\<forall>n. disk E n = Written"
  shows "cache_file w = Pickled (embedding_cache w) \<Longrightarrow> embedding_cache w k = Some v \<Longrightarrow>
     embedding_cache (snd (lifetime E evs (True, w))) k = Some v \<and>
     requests_for k (snd (lifetime E evs (True, w))) = requests_for k w \<and>
     computations k (snd (lifetime E evs (True, w))) = computations k w"
proof (induction evs arbitrary: w)
  case Nil
  then show ?case by simp
next
  case (Cons ev evs)
  show ?case
  proof (cases ev)
    case (Lookup s m)
    let ?w = "snd (embedding_from_string E s m w)"
    have "cache_file ?w = Pickled (embedding_cache ?w)"
      using assms Cons.prems(1) by (rule lookup_synced)
    moreover have "embedding_cache ?w k = Some v"
      using Cons.prems(2) by (rule lookup_keeps_entry)
    ultimately have "embedding_cache (snd (lifetime E evs (True, ?w))) k = Some v \<and>
       requests_for k (snd (lifetime E evs (True, ?w))) = requests_for k ?w \<and>
       computations k (snd (lifetime E evs (True, ?w))) = computations k ?w"
      by (rule Cons.IH)
    with Lookup Cons.prems(2) show ?thesis
      by (simp add: lookup_keeps_requests_for lookup_keeps_computations)
  next
    case Restart
    let ?w = "w\<lparr>writes := Suc (writes w)\<rparr>"
    have "cache_file ?w = Pickled (embedding_cache ?w)" and "embedding_cache ?w k = Some v"
      using Cons.prems by simp_all
    then have "embedding_cache (snd (lifetime E evs (True, ?w))) k = Some v \<and>
       requests_for k (snd (lifetime E evs (True, ?w))) = requests_for k ?w \<and>
       computations k (snd (lifetime E evs (True, ?w))) = computations k ?w"
      by (rule Cons.IH)
    with Restart restart_synced [OF assms Cons.prems(1)] show ?thesis
      by (simp add: requests_for_def computations_def)
  qed
qed

lemma lifetime_computes_once:
  assumes "\<forall>n. disk E n = Written"
  shows "cache_file w = Pickled (embedding_cache w) \<Longrightarrow>
     computations k (snd (lifetime E evs (True, w))) \<le> computations k w + 1"
proof (induction evs arbitrary: w)
  case Nil
  then show ?case by simp
next
  case (Cons ev evs)
  show ?case
  proof (cases ev)
    case (Lookup s m)
    let ?w = "snd (embedding_from_string E s m w)"
    have synced: "cache_file ?w = Pickled (embedding_cache ?w)"
      using assms Cons.prems by (rule lookup_synced)
    show ?thesis
    proof (cases "embedding_cache w k")
      case (Some v)
      with lifetime_keeps_entry [OF assms Cons.prems, of k v "ev # evs"] show ?thesis by simp
    next
      case None
      from lookup_miss_cases [OF None, of E s m] show ?thesis
      proof
        assume "embedding_cache ?w k = None \<and> computations k ?w = computations k w"
        with Cons.IH [OF synced] Lookup show ?thesis by simp
      next
        assume "(\<exists>v. embedding_cache ?w k = Some v) \<and> computations k ?w = computations k w + 1"
        then obtain v where "embedding_cache ?w k = Some v"
          and "computations k ?w = computations k w + 1" by blast
        with lifetime_keeps_entry [OF assms synced, of k v evs] Lookup show ?thesis by simp
      qed
    qed
  next
    case Restart
    let ?w = "w\<lparr>writes := Suc (writes w)\<rparr>"
    have "cache_file ?w = Pickled (embedding_cache ?w)" using Cons.prems by simp
    from Cons.IH [OF this] Restart restart_synced [OF assms Cons.prems] show ?thesis
      by (simp add: computations_def)
  qed
qed

text \<open>
  C4 (as stated): over the cache's lifetime, across restarts that reuse the file, the
  provider is invoked at most once for each (text, model) pair. A request that raises
  stores nothing, so the next lookup of the pair asks again: two lookups of one pair make
  two requests. And an embedding whose write failed is only in memory: after a restart
  the pair is computed a second time.
\<close>

theorem provider_invoked_once_counterexample:
  "length (requests_for (''A'', ''m'')
     (lookups no_provider [(''A'', ''m''), (''A'', ''m'')] empty_session)) = 2 \<and>
   computations (''A'', ''m'')
     (snd (lifetime failing_once [Lookup ''A'' ''m'', Restart, Lookup ''A'' ''m'']
        (True, empty_session))) = 2"
proof -
  let ?w1 = "empty_session\<lparr>requests := [((''A'', ''m''), Inr [1, 0])],
      embedding_cache := [(''A'', ''m'') \<mapsto> [1, 0]], writes := 2\<rparr>"
  let ?w2 = "empty_session\<lparr>requests := [((''A'', ''m''), Inr [1, 0])], writes := 3\<rparr>"
  have twice: "length (requests_for (''A'', ''m'')
     (lookups no_provider [(''A'', ''m''), (''A'', ''m'')] empty_session)) = 2"
    by (simp add: requests_for_def embedding_from_string_def no_provider_def empty_session_def)
  have computed: "snd (embedding_from_string failing_once ''A'' ''m'' empty_session) = ?w1"
    by (simp add: embedding_from_string_def pickle_dump_def failing_once_def empty_session_def)
  have restarted: "restart failing_once ?w1 = (Inr (), ?w2)"
    by (simp add: restart_def read_pickle_def pickle_dump_def failing_once_def empty_session_def)
  have again: "computations (''A'', ''m'')
      (snd (embedding_from_string failing_once ''A'' ''m'' ?w2)) = 2"
    by (simp add: computations_def embedding_from_string_def pickle_dump_def failing_once_def
        empty_session_def)
  have "lifetime failing_once [Lookup ''A'' ''m'', Restart, Lookup ''A'' ''m'']
      (True, empty_session) = (True, snd (embedding_from_string failing_once ''A'' ''m'' ?w2))"
    by (simp only: lifetime.simps if_True computed restarted prod.case sum.case)
  then have "computations (''A'', ''m'')
     (snd (lifetime failing_once [Lookup ''A'' ''m'', Restart, Lookup ''A'' ''m'']
        (True, empty_session))) = 2"
    by (simp only: snd_conv again)
  with twice show ?thesis by (rule conjI)
qed

text \<open>
  C4 (amended): when a lookup returns a vector, the next lookup of the same pair returns
  the same vector, makes no request and leaves the state as it is. A request that raises
  stores nothing: the call raises the provider's error and only the history of requests
  grows. Within one run, over any sequence of lookups, the provider answers with an
  embedding at most once more for each pair and is not asked at all for a pair already
  in the cache; over a lifetime with restarts that reuse the file the same holds when
  every write of the file succeeds.
\<close>

theorem lookup_idempotent_compute_once:
  "(embedding_from_string E t m w = (Inr v, w1) \<longrightarrow>
      embedding_from_string E t m w1 = (Inr v, w1)) \<and>
   (embedding_cache w (t, m) = None \<and> get_embedding E (requests w) t m = Inl e \<longrightarrow>
      embedding_from_string E t m w =
        (Inl e, w\<lparr>requests := requests w @ [((t, m), Inl e)]\<rparr>)) \<and>
   computations k (lookups E ks w) \<le> computations k w + 1 \<and>
   (k \<in> dom (embedding_cache w) \<longrightarrow> requests_for k (lookups E ks w) = requests_for k w) \<and>
   ((\<forall>n. disk E n = Written) \<and> cache_file w = Pickled (embedding_cache w) \<longrightarrow>
      computations k (snd (lifetime E evs (True, w))) \<le> computations k w + 1 \<and>
      (k \<in> dom (embedding_cache w) \<longrightarrow>
         requests_for k (snd (lifetime E evs (True, w))) = requests_for k w))"
proof (intro conjI impI)
  assume "embedding_from_string E t m w = (Inr v, w1)"
  then have "embedding_cache w1 (t, m) = Some v" by (rule lookup_returns_cached)
  then show "embedding_from_string E t m w1 = (Inr v, w1)" by (rule lookup_hit)
next
  assume "embedding_cache w (t, m) = None \<and> get_embedding E (requests w) t m = Inl e"
  then show "embedding_from_string E t m w =
      (Inl e, w\<lparr>requests := requests w @ [((t, m), Inl e)]\<rparr>)"
    by (simp add: embedding_from_string_def)
next
  show "computations k (lookups E ks w) \<le> computations k w + 1"
    by (rule lookups_compute_once)
next
  assume "k \<in> dom (embedding_cache w)"
  then obtain v' where "embedding_cache w k = Some v'" by blast
  then show "requests_for k (lookups E ks w) = requests_for k w"
    by (simp add: lookups_keep_entry)
next
  assume "(\<forall>n. disk E n = Written) \<and> cache_file w = Pickled (embedding_cache w)"
  then have writable: "\<forall>n. disk E n = Written"
    and synced: "cache_file w = Pickled (embedding_cache w)" by blast+
  show "computations k (snd (lifetime E evs (True, w))) \<le> computations k w + 1"
    using writable synced by (rule lifetime_computes_once)
  assume "k \<in> dom (embedding_cache w)"
  then obtain v' where "embedding_cache w k = Some v'" by blast
  with lifetime_keeps_entry [OF writable synced]
  show "requests_for k (snd (lifetime E evs (True, w))) = requests_for k w"
    by blast
qed

theorem lookup_idempotent_compute_once_witness:
  "embedding_from_string axis_provider ''A'' ''m'' empty_session =
     (Inr [1, 0], snd (embedding_from_string axis_provider ''A'' ''m'' empty_session)) \<and>
   embedding_from_string axis_provider ''A'' ''m''
       (snd (embedding_from_string axis_provider ''A'' ''m'' empty_session)) =
     (Inr [1, 0], snd (embedding_from_string axis_provider ''A'' ''m'' empty_session)) \<and>
   embedding_cache empty_session (''A'', ''m'') = None \<and>
   get_embedding no_provider (requests empty_session) ''A'' ''m'' = Inl APIError \<and>
   embedding_from_string no_provider ''A'' ''m'' empty_session =
     (Inl APIError, empty_session\<lparr>requests := [((''A'', ''m''), Inl APIError)]\<rparr>) \<and>
   computations (''A'', ''m'')
       (lookups axis_provider [(''A'', ''m''), (''B'', ''m''), (''A'', ''m'')] empty_session) \<le> 1 \<and>
   (''A'', ''m'') \<in> dom (embedding_cache (lookups axis_provider [(''A'', ''m'')] empty_session)) \<and>
   requests_for (''A'', ''m'')
       (lookups axis_provider [(''A'', ''m'')] (lookups axis_provider [(''A'', ''m'')] empty_session)) =
     [((''A'', ''m''), Inr [1, 0])] \<and>
   (\<forall>n. disk axis_provider n = Written) \<and>
   cache_file empty_session = Pickled (embedding_cache empty_session) \<and>
   computations (''A'', ''m'')
       (snd (lifetime axis_provider [Lookup ''A'' ''m'', Restart, Lookup ''A'' ''m'']
          (True, empty_session))) \<le> 1 \<and>
   requests_for (''A'', ''m'')
       (snd (lifetime axis_provider [Restart, Lookup ''A'' ''m'']
          (True, lookups axis_provider [(''A'', ''m'')] empty_session))) =
     [((''A'', ''m''), Inr [1, 0])]"
proof -
  let ?w1 = "lookups axis_provider [(''A'', ''m'')] empty_session"
  have first: "embedding_from_string axis_provider ''A'' ''m'' empty_session =
     (Inr [1, 0], snd (embedding_from_string axis_provider ''A'' ''m'' empty_session))"
    by (simp add: embedding_from_string_def pickle_dump_def axis_provider_def empty_session_def)
  have cached: "(''A'', ''m'') \<in> dom (embedding_cache ?w1)"
    by (simp add: embedding_from_string_def pickle_dump_def axis_provider_def empty_session_def)
  have before: "requests_for (''A'', ''m'') ?w1 = [((''A'', ''m''), Inr [1, 0])]"
    by (simp add: requests_for_def embedding_from_string_def pickle_dump_def
        axis_provider_def empty_session_def)
  have fresh: "computations (''A'', ''m'') empty_session = 0"
    by (simp add: computations_def empty_session_def)
  have miss: "embedding_cache empty_session (''A'', ''m'') = None"
    "requests empty_session = []"
    by (simp_all add: empty_session_def)
  have raises: "get_embedding no_provider (requests empty_session) ''A'' ''m'' = Inl APIError"
    by (simp add: no_provider_def)
  have writable: "\<forall>n. disk axis_provider n = Written" by (simp add: axis_provider_def)
  have synced: "cache_file empty_session = Pickled (embedding_cache empty_session)"
    by (simp add: empty_session_def)
  have synced1: "cache_file ?w1 = Pickled (embedding_cache ?w1)"
    by (simp add: embedding_from_string_def pickle_dump_def axis_provider_def empty_session_def)
  note run = lookup_idempotent_compute_once [where E = axis_provider and t = "''A''"
      and m = "''m''" and w = empty_session and v = "[1, 0]"
      and ?w1.0 = "snd (embedding_from_string axis_provider ''A'' ''m'' empty_session)"
      and k = "(''A'', ''m'')" and ks = "[(''A'', ''m''), (''B'', ''m''), (''A'', ''m'')]"
      and evs = "[Lookup ''A'' ''m'', Restart, Lookup ''A'' ''m'']"]
  note later = lookup_idempotent_compute_once [where E = axis_provider and w = ?w1
      and k = "(''A'', ''m'')" and ks = "[(''A'', ''m'')]"
      and evs = "[Restart, Lookup ''A'' ''m'']"]
  note failed = lookup_idempotent_compute_once [where E = no_provider and t = "''A''"
      and m = "''m''" and w = empty_session and e = APIError]
  have again: "embedding_from_string axis_provider ''A'' ''m''
       (snd (embedding_from_string axis_provider ''A'' ''m'' empty_session)) =
     (Inr [1, 0], snd (embedding_from_string axis_provider ''A'' ''m'' empty_session))"
    by (rule run [THEN conjunct1, THEN mp, OF first])
  have "embedding_from_string no_provider ''A'' ''m'' empty_session =
     (Inl APIError, empty_session\<lparr>requests := requests empty_session @ [((''A'', ''m''), Inl APIError)]\<rparr>)"
    by (rule failed [THEN conjunct2, THEN conjunct1, THEN mp, OF conjI [OF miss(1) raises]])
  then have unstored: "embedding_from_string no_provider ''A'' ''m'' empty_session =
     (Inl APIError, empty_session\<lparr>requests := [((''A'', ''m''), Inl APIError)]\<rparr>)"
    by (simp add: miss(2))
  have "computations (''A'', ''m'')
       (lookups axis_provider [(''A'', ''m''), (''B'', ''m''), (''A'', ''m'')] empty_session)
        \<le> computations (''A'', ''m'') empty_session + 1"
    by (rule run [THEN conjunct2, THEN conjunct2, THEN conjunct1])
  then have once: "computations (''A'', ''m'')
       (lookups axis_provider [(''A'', ''m''), (''B'', ''m''), (''A'', ''m'')] empty_session) \<le> 1"
    by (simp only: fresh add_0)
  have "requests_for (''A'', ''m'') (lookups axis_provider [(''A'', ''m'')] ?w1) =
      requests_for (''A'', ''m'') ?w1"
    by (rule later [THEN conjunct2, THEN conjunct2, THEN conjunct2, THEN conjunct1, THEN mp,
          OF cached])
  then have asked: "requests_for (''A'', ''m'') (lookups axis_provider [(''A'', ''m'')] ?w1) =
     [((''A'', ''m''), Inr [1, 0])]"
    by (simp only: before)
  note restarts = run [THEN conjunct2, THEN conjunct2, THEN conjunct2, THEN conjunct2, THEN mp,
      OF conjI [OF writable synced]]
  have "computations (''A'', ''m'')
       (snd (lifetime axis_provider [Lookup ''A'' ''m'', Restart, Lookup ''A'' ''m'']
          (True, empty_session))) \<le> computations (''A'', ''m'') empty_session + 1"
    by (rule restarts [THEN conjunct1])
  then have once_restarted: "computations (''A'', ''m'')
       (snd (lifetime axis_provider [Lookup ''A'' ''m'', Restart, Lookup ''A'' ''m'']
          (True, empty_session))) \<le> 1"
    by (simp only: fresh add_0)
  note restarts1 = later [THEN conjunct2, THEN conjunct2, THEN conjunct2, THEN conjunct2, THEN mp,
      OF conjI [OF writable synced1]]
  have "requests_for (''A'', ''m'')
       (snd (lifetime axis_provider [Restart, Lookup ''A'' ''m''] (True, ?w1))) =
      requests_for (''A'', ''m'') ?w1"
    by (rule restarts1 [THEN conjunct2, THEN mp, OF cached])
  then have asked_restarted: "requests_for (''A'', ''m'')
       (snd (lifetime axis_provider [Restart, Lookup ''A'' ''m''] (True, ?w1))) =
     [((''A'', ''m''), Inr [1, 0])]"
    by (simp only: before)
  from first again miss(1) raises unstored once cached asked writable synced
    once_restarted asked_restarted
  show ?thesis by blast
qed

text \<open>
  C5 (as stated): a corrupt cache file is read as an empty cache. Only
  \<open>FileNotFoundError\<close> is caught: the error of unpickling a corrupt file ends the cell.
\<close>

theorem load_corrupt_tolerated_counterexample:
  "load_embedding_cache axis_provider Corrupt = Inl UnpicklingError"
  by (simp add: load_embedding_cache_def read_pickle_def)

text \<open>
  C5 (amended): at startup a missing cache file is tolerated and read as an empty cache,
  which is then written to the file; a corrupt file is not tolerated, its read error
  reaches the caller.
\<close>

theorem load_missing_tolerated_corrupt_raises:
  "(disk E 0 = Written \<longrightarrow>
      load_embedding_cache E Missing =
        Inr \<lparr>embedding_cache = Map.empty, cache_file = Pickled Map.empty,
             requests = [], writes = 1\<rparr>) \<and>
   load_embedding_cache E Corrupt = Inl UnpicklingError"
  by (simp add: load_embedding_cache_def read_pickle_def pickle_dump_def)

theorem load_missing_tolerated_corrupt_raises_witness:
  "disk axis_provider 0 = Written \<and>
   load_embedding_cache axis_provider Missing = Inr empty_session \<and>
   load_embedding_cache axis_provider Corrupt = Inl UnpicklingError"
  using load_missing_tolerated_corrupt_raises [of axis_provider]
  by (simp add: axis_provider_def empty_session_def)

text \<open>
  C8: when a lookup misses and the provider answers, the embedding is in the in-memory
  cache after the call whatever the write does. If the write fails the call raises
  \<open>OSError\<close>, the file is as it was or truncated, and the next lookup returns the embedding
  from memory; if the write succeeds the file holds the cache with the new entry, which
  was therefore inserted before the write.
\<close>

theorem entry_survives_failed_write:
  assumes "embedding_cache w (t, m) = None"
    and "get_embedding E (requests w) t m = Inr v"
  shows "embedding_cache (snd (embedding_from_string E t m w)) (t, m) = Some v \<and>
    (disk E (writes w) \<noteq> Written \<longrightarrow>
       fst (embedding_from_string E t m w) = Inl OSError \<and>
       (cache_file (snd (embedding_from_string E t m w)) = cache_file w \<or>
        cache_file (snd (embedding_from_string E t m w)) = Corrupt) \<and>
       embedding_from_string E t m (snd (embedding_from_string E t m w)) =
         (Inr v, snd (embedding_from_string E t m w))) \<and>
    (disk E (writes w) = Written \<longrightarrow>
       cache_file (snd (embedding_from_string E t m w)) =
         Pickled ((embedding_cache w)((t, m) \<mapsto> v)))"
proof -
  have stored: "embedding_cache (snd (embedding_from_string E t m w)) (t, m) = Some v"
    using assms by (simp add: lookup_state pickle_dump_memory)
  then have again: "embedding_from_string E t m (snd (embedding_from_string E t m w)) =
         (Inr v, snd (embedding_from_string E t m w))"
    by (rule lookup_hit)
  have "disk E (writes w) \<noteq> Written \<Longrightarrow> fst (embedding_from_string E t m w) = Inl OSError \<and>
       (cache_file (snd (embedding_from_string E t m w)) = cache_file w \<or>
        cache_file (snd (embedding_from_string E t m w)) = Corrupt)"
    using assms by (simp add: embedding_from_string_def pickle_dump_def split: write_outcome.splits)
  moreover have "disk E (writes w) = Written \<Longrightarrow>
       cache_file (snd (embedding_from_string E t m w)) =
         Pickled ((embedding_cache w)((t, m) \<mapsto> v))"
    using assms by (simp add: embedding_from_string_def pickle_dump_def)
  ultimately show ?thesis using stored again by blast
qed

theorem entry_survives_failed_write_witness:
  "embedding_cache empty_session (''A'', ''m'') = None \<and>
   get_embedding read_only_disk (requests empty_session) ''A'' ''m'' = Inr [1, 0] \<and>
   disk read_only_disk (writes empty_session) \<noteq> Written \<and>
   fst (embedding_from_string read_only_disk ''A'' ''m'' empty_session) = Inl OSError \<and>
   embedding_cache (snd (embedding_from_string read_only_disk ''A'' ''m'' empty_session)) (''A'', ''m'')
     = Some [1, 0] \<and>
   cache_file (snd (embedding_from_string read_only_disk ''A'' ''m'' empty_session)) = Pickled Map.empty \<and>
   get_embedding axis_provider (requests empty_session) ''A'' ''m'' = Inr [1, 0] \<and>
   disk axis_provider (writes empty_session) = Written \<and>
   cache_file (snd (embedding_from_string axis_provider ''A'' ''m'' empty_session)) =
     Pickled (Map.empty((''A'', ''m'') \<mapsto> [1, 0]))"
proof -
  have a: "embedding_cache empty_session (''A'', ''m'') = None"
    by (simp add: empty_session_def)
  have b: "get_embedding read_only_disk (requests empty_session) ''A'' ''m'' = Inr [1, 0]"
    by (simp add: read_only_disk_def)
  have c: "disk read_only_disk (writes empty_session) \<noteq> Written"
    by (simp add: read_only_disk_def)
  have d: "get_embedding axis_provider (requests empty_session) ''A'' ''m'' = Inr [1, 0]"
    by (simp add: axis_provider_def)
  have e: "disk axis_provider (writes empty_session) = Written"
    by (simp add: axis_provider_def)
  have f: "cache_file empty_session = Pickled Map.empty" "embedding_cache empty_session = Map.empty"
    by (simp_all add: empty_session_def)
  have g: "cache_file (snd (embedding_from_string read_only_disk ''A'' ''m'' empty_session)) \<noteq> Corrupt"
    by (simp add: embedding_from_string_def pickle_dump_def read_only_disk_def empty_session_def)
  from entry_survives_failed_write [OF a b] entry_survives_failed_write [OF a d] a b c d e f g
  show ?thesis by simp
qed

text \<open>
  C9: an entry computed on a miss is the provider's answer and stays so through every
  later lookup, with no further request for its key; more generally no sequence of
  lookups changes, removes or recomputes an entry that is in the cache.
\<close>

theorem cache_entry_write_once:
  "(embedding_cache w (t, m) = None \<and> get_embedding E (requests w) t m = Inr v \<longrightarrow>
      embedding_cache (lookups E ((t, m) # ks) w) (t, m) = Some v \<and>
      requests_for (t, m) (lookups E ((t, m) # ks) w) = requests_for (t, m) w @ [((t, m), Inr v)]) \<and>
   (embedding_cache w k = Some v' \<longrightarrow>
      embedding_cache (lookups E ks w) k = Some v' \<and>
      requests_for k (lookups E ks w) = requests_for k w)"
proof (intro conjI impI)
  assume miss: "embedding_cache w (t, m) = None \<and> get_embedding E (requests w) t m = Inr v"
  let ?w = "snd (embedding_from_string E t m w)"
  from miss have stored: "embedding_cache ?w (t, m) = Some v"
    by (simp add: lookup_state pickle_dump_memory)
  from miss have asked: "requests_for (t, m) ?w = requests_for (t, m) w @ [((t, m), Inr v)]"
    by (simp add: lookup_state pickle_dump_memory requests_for_def)
  from lookups_keep_entry [OF stored, of E ks]
  show "embedding_cache (lookups E ((t, m) # ks) w) (t, m) = Some v" by simp
  from lookups_keep_entry [OF stored, of E ks] asked
  show "requests_for (t, m) (lookups E ((t, m) # ks) w) = requests_for (t, m) w @ [((t, m), Inr v)]"
    by simp
next
  assume "embedding_cache w k = Some v'"
  then show "embedding_cache (lookups E ks w) k = Some v'"
    and "requests_for k (lookups E ks w) = requests_for k w"
    by (simp_all add: lookups_keep_entry)
qed

theorem cache_entry_write_once_witness:
  "embedding_cache empty_session (''A'', ''m'') = None \<and>
   get_embedding axis_provider (requests empty_session) ''A'' ''m'' = Inr [1, 0] \<and>
   embedding_cache (lookups axis_provider [(''A'', ''m''), (''B'', ''m''), (''A'', ''m'')] empty_session)
     (''A'', ''m'') = Some [1, 0] \<and>
   requests_for (''A'', ''m'')
     (lookups axis_provider [(''A'', ''m''), (''B'', ''m''), (''A'', ''m'')] empty_session) =
     [((''A'', ''m''), Inr [1, 0])] \<and>
   embedding_cache (lookups axis_provider [(''B'', ''m'')] empty_session) (''B'', ''m'') = Some [0, 1] \<and>
   embedding_cache (lookups axis_provider [(''A'', ''m''), (''B'', ''m'')]
      (lookups axis_provider [(''B'', ''m'')] empty_session)) (''B'', ''m'') = Some [0, 1]"
proof -
  have a: "embedding_cache empty_session (''A'', ''m'') = None"
    by (simp add: empty_session_def)
  have b: "get_embedding axis_provider (requests empty_session) ''A'' ''m'' = Inr [1, 0]"
    by (simp add: axis_provider_def)
  have c: "requests_for (''A'', ''m'') empty_session = []"
    by (simp add: requests_for_def empty_session_def)
  have d: "embedding_cache (lookups axis_provider [(''B'', ''m'')] empty_session) (''B'', ''m'') = Some [0, 1]"
    by (simp add: embedding_from_string_def pickle_dump_def axis_provider_def empty_session_def)
  from cache_entry_write_once [where w = empty_session and t = "''A''" and m = "''m''"
      and E = axis_provider and v = "[1, 0]" and ks = "[(''B'', ''m''), (''A'', ''m'')]"]
    cache_entry_write_once [where w = "lookups axis_provider [(''B'', ''m'')] empty_session"
      and E = axis_provider and k = "(''B'', ''m'')" and v' = "[0, 1]"
      and ks = "[(''A'', ''m''), (''B'', ''m'')]"]
    a b c d
  show ?thesis by simp
qed

section \<open>Properties of the similarity scores\<close>

lemma distances_value:
  "\<forall>e\<in>set es. length e = length q \<Longrightarrow>
   distances_from_embeddings R q es =
     Inr (map (\<lambda>e. np_divide R (np_dot R q e) (np_multiply R (np_norm R q) (np_norm R e))) es)"
  by (induction es) (simp_all add: cosine_similarity_def)

lemma distances_length:
  "distances_from_embeddings R q es = Inr ds \<Longrightarrow> length ds = length es"
  by (induction es arbitrary: ds) (auto split: sum.splits)

lemma distances_nth:
  "distances_from_embeddings R q es = Inr ds \<Longrightarrow> i < length es \<Longrightarrow>
   cosine_similarity R q (es ! i) = Inr (ds ! i)"
proof (induction es arbitrary: ds i)
  case Nil
  then show ?case by simp
next
  case (Cons e es)
  then show ?case by (cases i) (auto split: sum.splits)
qed

lemma zero_vector_score:
  assumes "ieee_zero_rules R" and "length q = length e"
    and "(\<forall>x\<in>set q. x = 0) \<or> (\<forall>x\<in>set e. x = 0)"
  shows "np_divide R (np_dot R q e) (np_multiply R (np_norm R q) (np_norm R e)) = NaN"
proof -
  from assms have dot: "np_dot R q e = Finite 0"
    unfolding ieee_zero_rules_def by blast
  from assms(1) have norm: "\<And>a. \<forall>x\<in>set a. x = 0 \<Longrightarrow> np_norm R a = Finite 0"
    and mult: "\<And>x. np_multiply R x (Finite 0) = Finite 0 \<or> np_multiply R x (Finite 0) = NaN"
      "\<And>x. np_multiply R (Finite 0) x = Finite 0 \<or> np_multiply R (Finite 0) x = NaN"
    and div: "np_divide R (Finite 0) (Finite 0) = NaN" "np_divide R (Finite 0) NaN = NaN"
    unfolding ieee_zero_rules_def by blast+
  from assms(3) have "np_multiply R (np_norm R q) (np_norm R e) = Finite 0 \<or>
      np_multiply R (np_norm R q) (np_norm R e) = NaN"
  proof
    assume "\<forall>x\<in>set q. x = 0"
    then have "np_norm R q = Finite 0" by (rule norm)
    with mult(2) [of "np_norm R e"] show ?thesis by simp
  next
    assume "\<forall>x\<in>set e. x = 0"
    then have "np_norm R e = Finite 0" by (rule norm)
    with mult(1) [of "np_norm R q"] show ?thesis by simp
  qed
  with dot div show ?thesis by auto
qed

lemma dot_zero_left:
  "\<forall>x\<in>set a. x = 0 \<Longrightarrow> sum_list (map2 (*) a (b :: real list)) = 0"
proof (induction a arbitrary: b)
  case Nil
  then show ?case by simp
next
  case (Cons x a)
  then show ?case by (cases b) auto
qed

lemma dot_zero_right:
  "\<forall>x\<in>set b. x = 0 \<Longrightarrow> sum_list (map2 (*) (a :: real list) b) = 0"
proof (induction b arbitrary: a)
  case Nil
  then show ?case by simp
next
  case (Cons x b)
  then show ?case by (cases a) auto
qed

lemma sum_squares_zero:
  "\<forall>x\<in>set a. x = 0 \<Longrightarrow> sum_list (map (\<lambda>x. x\<^sup>2) (a :: real list)) = 0"
  by (induction a) simp_all

lemma exact_multiply_zero:
  "exact_multiply x (Finite 0) = Finite 0 \<or> exact_multiply x (Finite 0) = NaN"
  "exact_multiply (Finite 0) x = Finite 0 \<or> exact_multiply (Finite 0) x = NaN"
  by (cases x; simp)+

lemma exact_numpy_zero_rules: "ieee_zero_rules exact_numpy"
  unfolding ieee_zero_rules_def exact_numpy_def
  by (auto simp: dot_zero_left dot_zero_right sum_squares_zero exact_multiply_zero)

text \<open>
  C3 (as stated): an input with a zero-norm embedding makes the computation fail with an
  error instead of giving a NaN score. numpy's division does not raise: with a zero
  vector among the candidates the scores are returned, and the score of the zero vector
  is NaN.
\<close>

theorem zero_norm_raises_counterexample:
  "distances_from_embeddings exact_numpy [1, 0] [[1, 0], [0, 0]] = Inr [Finite 1, NaN]"
  by (simp add: cosine_similarity_def exact_numpy_def)

text \<open>
  C3 (amended): for embeddings of the query's length, whether or not one of them is a
  zero vector, the similarity computation raises no error and returns one score for each
  embedding; by the rules of IEEE arithmetic about zero, the score is NaN wherever the
  query or the candidate is a vector of zeros.
\<close>

theorem zero_norm_scores_nan:
  assumes "\<forall>e\<in>set embeddings. length e = length query_embedding"
  shows "\<exists>distances. distances_from_embeddings R query_embedding embeddings = Inr distances \<and>
           length distances = length embeddings \<and>
           (ieee_zero_rules R \<longrightarrow>
              (\<forall>i<length embeddings.
                 (\<forall>x\<in>set query_embedding. x = 0) \<or> (\<forall>x\<in>set (embeddings ! i). x = 0) \<longrightarrow>
                 distances ! i = NaN))"
proof -
  have "length query_embedding = length (embeddings ! i)" if "i < length embeddings" for i
    using assms that by (metis nth_mem)
  then show ?thesis
    by (simp add: distances_value [OF assms] zero_vector_score)
qed

theorem zero_norm_scores_nan_witness:
  "list_all (\<lambda>e. length e = length [1::real, 0]) [[1, 0], [0, 0]] \<and>
   distances_from_embeddings exact_numpy [1, 0] [[1, 0], [0, 0]] = Inr [Finite 1, NaN] \<and>
   ieee_zero_rules exact_numpy \<and>
   list_all (\<lambda>x. x = 0) ([[1, 0], [0, 0 :: real]] ! 1) \<and>
   [Finite 1, NaN] ! 1 = NaN"
proof -
  have same: "\<forall>e\<in>set [[1, 0], [0, 0]]. length e = length [1::real, 0]" by simp
  have scores: "distances_from_embeddings exact_numpy [1, 0] [[1, 0], [0, 0]] =
      Inr [Finite 1, NaN]"
    by (simp add: cosine_similarity_def exact_numpy_def)
  from zero_norm_scores_nan [OF same, of exact_numpy] scores exact_numpy_zero_rules
  have "[Finite 1, NaN] ! 1 = NaN" by auto
  with scores exact_numpy_zero_rules show ?thesis by simp
qed

lemma nearest_neighbors_value:
  assumes "0 \<le> q" and "q < int (length embeddings)"
    and "\<forall>e\<in>set embeddings. length e = length (embeddings ! nat q)"
  shows "\<exists>distances.
      distances_from_embeddings R (embeddings ! nat q) embeddings = Inr distances \<and>
      nearest_neighbors R embeddings q =
        Inr (distances, indices_of_closest_matches_from_distances R distances)"
  using assms(1,2)
  by (simp add: nearest_neighbors_def py_getitem_def distances_value [OF assms(3)])

text \<open>
  C2 (as stated): the query index appears first. When a later embedding is equal to the
  query's, the two scores are equal and the reversal puts the later index first: for two
  equal embeddings and query index 0 the ranking is \<open>[1, 0]\<close>.
\<close>

theorem query_ranked_first_counterexample:
  "nearest_neighbors exact_numpy [[1, 0], [1, 0]] 0 = Inr ([Finite 1, Finite 1], [1, 0])"
  by (simp add: nearest_neighbors_def py_getitem_def cosine_similarity_def exact_numpy_def
      indices_of_closest_matches_from_distances_def sorted_range_def list_sort_short_def)

text \<open>
  C2 (amended): for a query index within a sequence of embeddings of one length, the
  ranking is returned with one score for each embedding, and it is a permutation of all
  indices; when no score is NaN its scores are non-increasing, and the query index
  appears before exactly those other indices whose score is smaller than its own, or
  equal to its own at a lower index. Nothing is said of the value of the query's score.
\<close>

theorem ranking_order_and_completeness:
  assumes "0 \<le> q" and "q < int (length embeddings)"
    and "\<forall>e\<in>set embeddings. length e = length (embeddings ! nat q)"
  shows "\<exists>distances ranking.
      nearest_neighbors R embeddings q = Inr (distances, ranking) \<and>
      length distances = length embeddings \<and>
      (\<forall>i<length embeddings.
         cosine_similarity R (embeddings ! nat q) (embeddings ! i) = Inr (distances ! i)) \<and>
      mset ranking = mset [0..<length embeddings] \<and>
      (NaN \<notin> set distances \<longrightarrow>
         sorted_wrt (\<lambda>a b. \<not> float_lt a b) (map ((!) distances) ranking) \<and>
         (\<forall>j<length embeddings. j \<noteq> nat q \<longrightarrow>
            (position ranking (nat q) < position ranking j \<longleftrightarrow>
               float_lt (distances ! j) (distances ! nat q) \<or>
               (distances ! j = distances ! nat q \<and> j < nat q))))"
proof -
  from nearest_neighbors_value [OF assms, of R] obtain distances
    where ds: "distances_from_embeddings R (embeddings ! nat q) embeddings = Inr distances"
      and nn: "nearest_neighbors R embeddings q =
        Inr (distances, indices_of_closest_matches_from_distances R distances)"
    by blast
  let ?r = "indices_of_closest_matches_from_distances R distances"
  have len: "length distances = length embeddings"
    using ds by (rule distances_length)
  have scores: "\<forall>i<length embeddings.
      cosine_similarity R (embeddings ! nat q) (embeddings ! i) = Inr (distances ! i)"
    using ds by (simp add: distances_nth)
  have q: "nat q < length embeddings" using assms(1,2) by simp
  have perm: "mset ?r = mset [0..<length embeddings]"
    using len ranking_mset [of R distances] by simp
  have ordered: "sorted_wrt (\<lambda>a b. \<not> float_lt a b) (map ((!) distances) ?r) \<and>
         (\<forall>j<length embeddings. j \<noteq> nat q \<longrightarrow>
            (position ?r (nat q) < position ?r j \<longleftrightarrow>
               float_lt (distances ! j) (distances ! nat q) \<or>
               (distances ! j = distances ! nat q \<and> j < nat q)))"
    if finite: "NaN \<notin> set distances"
  proof (intro conjI allI impI)
    show "sorted_wrt (\<lambda>a b. \<not> float_lt a b) (map ((!) distances) ?r)"
      using finite by (rule ranking_non_increasing)
    fix j assume j: "j < length embeddings" "j \<noteq> nat q"
    have members: "nat q \<in> set ?r" "j \<in> set ?r"
      using len q j(1) ranking_set [of R distances] by simp_all
    have sorted: "sorted_wrt (ranks_before distances) ?r"
      using finite by (rule ranking_sorted_wrt)
    have total: "ranks_before distances (nat q) j \<or> ranks_before distances j (nat q)"
    proof -
      have "distances ! j \<noteq> NaN" "distances ! nat q \<noteq> NaN"
        using finite len q j(1) by (metis nth_mem)+
      then show ?thesis
        using float_lt_total [of "distances ! j" "distances ! nat q"] j(2)
        unfolding ranks_before_def by auto
    qed
    have "position ?r (nat q) < position ?r j \<longleftrightarrow> ranks_before distances (nat q) j"
    proof
      assume "position ?r (nat q) < position ?r j"
      with sorted members show "ranks_before distances (nat q) j"
        by (rule position_sorted_wrt)
    next
      assume "ranks_before distances (nat q) j"
      then have "\<not> ranks_before distances j (nat q)" by (rule ranks_before_asym)
      moreover have "nat q \<noteq> j" using j(2) by simp
      ultimately show "position ?r (nat q) < position ?r j"
        using sorted members by (intro sorted_wrt_position [where R = "ranks_before distances"])
    qed
    then show "position ?r (nat q) < position ?r j \<longleftrightarrow>
        float_lt (distances ! j) (distances ! nat q) \<or>
        (distances ! j = distances ! nat q \<and> j < nat q)"
      unfolding ranks_before_def by auto
  qed
  from nn len scores perm ordered show ?thesis by blast
qed

theorem ranking_order_and_completeness_witness:
  "(0::int) \<le> 1 \<and> (1::int) < int (length [[0, 1], [1, 0], [1, 0 :: real]]) \<and>
   list_all (\<lambda>e. length e = length ([[0, 1], [1, 0], [1, 0 :: real]] ! nat 1))
     [[0, 1], [1, 0], [1, 0 :: real]] \<and>
   nearest_neighbors exact_numpy [[0, 1], [1, 0], [1, 0]] 1 =
     Inr ([Finite 0, Finite 1, Finite 1], [2, 1, 0]) \<and>
   NaN \<notin> set [Finite 0, Finite 1, Finite 1] \<and>
   mset [2, 1, 0 :: nat] = mset [0..<length [[0, 1], [1, 0], [1, 0 :: real]]] \<and>
   (0::nat) \<noteq> nat 1 \<and>
   position [2, 1, 0 :: nat] (nat 1) < position [2, 1, 0 :: nat] 0 \<and>
   float_lt ([Finite 0, Finite 1, Finite 1] ! 0) ([Finite 0, Finite 1, Finite 1] ! nat 1)"
proof -
  have a: "(1::int) < int (length [[0, 1], [1, 0], [1, 0 :: real]])" by simp
  have b: "\<forall>e\<in>set [[0, 1], [1, 0], [1, 0 :: real]].
      length e = length ([[0, 1], [1, 0], [1, 0 :: real]] ! nat 1)"
    by simp
  have d: "distances_from_embeddings exact_numpy [1, 0] [[0, 1], [1, 0], [1, 0]] =
      Inr [Finite 0, Finite 1, Finite 1]"
    by (simp add: cosine_similarity_def exact_numpy_def)
  have "indices_of_closest_matches_from_distances exact_numpy [Finite 0, Finite 1, Finite 1] =
      rev (list_sort_short (\<lambda>i. [Finite 0, Finite 1, Finite 1] ! i)
        [0..<length [Finite 0, Finite 1, Finite 1]])"
    by (rule short_ranking) simp
  also have "\<dots> = [2, 1, 0]" by code_simp
  finally have r: "indices_of_closest_matches_from_distances exact_numpy
      [Finite 0, Finite 1, Finite 1] = [2, 1, 0]" .
  have nn: "nearest_neighbors exact_numpy [[0, 1], [1, 0], [1, 0]] 1 =
      Inr ([Finite 0, Finite 1, Finite 1], [2, 1, 0])"
    by (simp add: nearest_neighbors_def py_getitem_def d r del: distances_from_embeddings.simps)
  from ranking_order_and_completeness [OF _ a b, of exact_numpy]
  obtain ds rk where ret: "nearest_neighbors exact_numpy [[0, 1], [1, 0], [1, 0]] 1 = Inr (ds, rk)"
    and perm0: "mset rk = mset [0..<length [[0, 1], [1, 0], [1, 0 :: real]]]"
    and ordered: "NaN \<notin> set ds \<longrightarrow>
         sorted_wrt (\<lambda>a b. \<not> float_lt a b) (map ((!) ds) rk) \<and>
         (\<forall>j<length [[0, 1], [1, 0], [1, 0 :: real]]. j \<noteq> nat 1 \<longrightarrow>
            (position rk (nat 1) < position rk j \<longleftrightarrow>
               float_lt (ds ! j) (ds ! nat 1) \<or> (ds ! j = ds ! nat 1 \<and> j < nat 1)))"
    by auto
  from ret nn have eq: "ds = [Finite 0, Finite 1, Finite 1]" "rk = [2, 1, 0]" by simp_all
  have finite: "NaN \<notin> set [Finite 0, Finite 1, Finite 1]" by simp
  from perm0 have perm: "mset [2, 1, 0 :: nat] = mset [0..<length [[0, 1], [1, 0], [1, 0 :: real]]]"
    unfolding eq .
  from ordered [unfolded eq, rule_format, OF finite]
  have place: "\<forall>j<length [[0, 1], [1, 0], [1, 0 :: real]]. j \<noteq> nat 1 \<longrightarrow>
            (position [2, 1, 0 :: nat] (nat 1) < position [2, 1, 0] j \<longleftrightarrow>
               float_lt ([Finite 0, Finite 1, Finite 1] ! j) ([Finite 0, Finite 1, Finite 1] ! nat 1) \<or>
               ([Finite 0, Finite 1, Finite 1] ! j = [Finite 0, Finite 1, Finite 1] ! nat 1 \<and> j < nat 1))"
    by blast
  from place [rule_format, of 0]
  have "position [2, 1, 0 :: nat] (nat 1) < position [2, 1, 0 :: nat] 0" by simp
  with a b nn finite perm show ?thesis by simp
qed

section \<open>Properties of the recommendations\<close>

lemma recommendations_take_filter:
  "recommendations strings query_string k c ranking =
     take (nat (k - c)) (filter (\<lambda>i. strings ! i \<noteq> query_string) ranking)"
proof (induction ranking arbitrary: c)
  case Nil
  then show ?case by simp
next
  case (Cons i ranking)
  show ?case
  proof (cases "query_string = strings ! i")
    case True
    with Cons show ?thesis by simp
  next
    case differs: False
    show ?thesis
    proof (cases "c \<ge> k")
      case True
      with differs show ?thesis by simp
    next
      case False
      then have "nat (k - c) = Suc (nat (k - (c + 1)))" by simp
      with differs False Cons show ?thesis by auto
    qed
  qed
qed

lemma embeddings_from_strings_length:
  "embeddings_from_strings E strings model w = (Inr embeddings, w') \<Longrightarrow>
   length embeddings = length strings"
proof (induction strings arbitrary: w embeddings)
  case Nil
  then show ?case by simp
next
  case (Cons s strings)
  then show ?case by (fastforce split: prod.splits sum.splits)
qed

lemma nearest_neighbors_returns:
  assumes "nearest_neighbors R embeddings q = Inr (distances, ranking)"
  shows "ranking = indices_of_closest_matches_from_distances R distances"
    and "length distances = length embeddings"
    and "\<exists>e. py_getitem embeddings q = Inr e"
  using assms
  by (auto simp: nearest_neighbors_def split: sum.splits dest!: distances_length)

lemma py_getitem_same_length:
  "py_getitem xs q = Inr x \<Longrightarrow> length ys = length xs \<Longrightarrow> \<exists>y. py_getitem ys q = Inr y"
  by (auto simp: py_getitem_def split: if_splits)

lemma py_getitem_valid:
  "- int (length xs) \<le> q \<Longrightarrow> q < int (length xs) \<Longrightarrow> \<exists>x\<in>set xs. py_getitem xs q = Inr x"
  by (auto simp: py_getitem_def)

lemma print_recommendations_cases:
  "print_recommendations_from_strings E R strings q k model w = (Inr (printed, ranking), w') \<longleftrightarrow>
   (\<exists>embeddings distances query_string.
      embeddings_from_strings E strings model w = (Inr embeddings, w') \<and>
      nearest_neighbors R embeddings q = Inr (distances, ranking) \<and>
      py_getitem strings q = Inr query_string \<and>
      printed = recommendations strings query_string k 0 ranking)"
  by (auto simp: print_recommendations_from_strings_def split: prod.splits sum.splits)


text \<open>
  When the provider answers every request with a vector of one length, every write goes
  through and the index is within the corpus, nothing raises and the call returns.
\<close>

lemma lookup_answers:
  assumes "\<forall>h s m. \<exists>v. get_embedding E h s m = Inr v \<and> length v = d"
    and "\<forall>n. disk E n = Written"
    and "\<forall>k v. embedding_cache w k = Some v \<longrightarrow> length v = d"
  shows "\<exists>v w'. embedding_from_string E s m w = (Inr v, w') \<and> length v = d \<and>
           (\<forall>k v. embedding_cache w' k = Some v \<longrightarrow> length v = d)"
proof (cases "embedding_cache w (s, m)")
  case (Some v)
  with assms(3) show ?thesis by (auto simp: embedding_from_string_def)
next
  case None
  from assms(1) obtain v where "get_embedding E (requests w) s m = Inr v" "length v = d"
    by blast
  with None assms(2,3) show ?thesis
    by (auto simp: embedding_from_string_def pickle_dump_def)
qed

lemma embeddings_from_strings_answers:
  assumes "\<forall>h s m. \<exists>v. get_embedding E h s m = Inr v \<and> length v = d"
    and "\<forall>n. disk E n = Written"
  shows "\<forall>k v. embedding_cache w k = Some v \<longrightarrow> length v = d \<Longrightarrow>
     \<exists>embeddings w'. embeddings_from_strings E strings model w = (Inr embeddings, w') \<and>
        (\<forall>e\<in>set embeddings. length e = d)"
proof (induction strings arbitrary: w)
  case Nil
  then show ?case by simp
next
  case (Cons s strings)
  from lookup_answers [OF assms Cons.prems, of s model] obtain v w1
    where first: "embedding_from_string E s model w = (Inr v, w1)" "length v = d"
      and "\<forall>k v. embedding_cache w1 k = Some v \<longrightarrow> length v = d"
    by blast
  from Cons.IH [OF this(3)] obtain embeddings w2
    where "embeddings_from_strings E strings model w1 = (Inr embeddings, w2)"
      and "\<forall>e\<in>set embeddings. length e = d"
    by blast
  with first show ?case by simp
qed

lemma nearest_neighbors_same_length:
  assumes "py_getitem embeddings q = Inr query_embedding"
    and "\<forall>e\<in>set embeddings. length e = length query_embedding"
  shows "\<exists>distances. nearest_neighbors R embeddings q =
      Inr (distances, indices_of_closest_matches_from_distances R distances)"
  using assms(1) by (simp add: nearest_neighbors_def distances_value [OF assms(2)])

lemma print_recommendations_returns:
  assumes "\<forall>h s m. \<exists>v. get_embedding E h s m = Inr v \<and> length v = d"
    and "\<forall>n. disk E n = Written"
    and "\<forall>k v. embedding_cache w k = Some v \<longrightarrow> length v = d"
    and "- int (length strings) \<le> q" and "q < int (length strings)"
  shows "\<exists>printed ranking w'.
     print_recommendations_from_strings E R strings q k model w = (Inr (printed, ranking), w')"
proof -
  from embeddings_from_strings_answers [OF assms(1,2,3)] obtain embeddings w'
    where fetched: "embeddings_from_strings E strings model w = (Inr embeddings, w')"
      and same: "\<forall>e\<in>set embeddings. length e = d"
    by blast
  from fetched have len: "length embeddings = length strings"
    by (rule embeddings_from_strings_length)
  with assms(4,5) py_getitem_valid [of embeddings q] obtain query_embedding
    where "query_embedding \<in> set embeddings" and qe: "py_getitem embeddings q = Inr query_embedding"
    by auto
  with same have "\<forall>e\<in>set embeddings. length e = length query_embedding" by simp
  with qe obtain distances where "nearest_neighbors R embeddings q =
      Inr (distances, indices_of_closest_matches_from_distances R distances)"
    using nearest_neighbors_same_length by blast
  moreover from assms(4,5) py_getitem_valid [of strings q] obtain query_string
    where "py_getitem strings q = Inr query_string" by auto
  ultimately show ?thesis using fetched
    unfolding print_recommendations_cases by blast
qed

lemma print_recommendations_ranking:
  assumes "print_recommendations_from_strings E R strings q k model w =
      (Inr (printed, ranking), w')"
  shows "\<exists>distances. ranking = indices_of_closest_matches_from_distances R distances \<and>
      length distances = length strings"
proof -
  from assms obtain embeddings distances where
    "embeddings_from_strings E strings model w = (Inr embeddings, w')"
    and "nearest_neighbors R embeddings q = Inr (distances, ranking)"
    unfolding print_recommendations_cases by blast
  then have "ranking = indices_of_closest_matches_from_distances R distances"
    and "length distances = length strings"
    by (simp_all add: nearest_neighbors_returns embeddings_from_strings_length)
  then show ?thesis by blast
qed

lemma print_recommendations_permutation:
  assumes "print_recommendations_from_strings E R strings q k model w =
      (Inr (printed, ranking), w')"
  shows "mset ranking = mset [0..<length strings]"
proof -
  from print_recommendations_ranking [OF assms] obtain distances
    where "ranking = indices_of_closest_matches_from_distances R distances"
      and "length distances = length strings" by blast
  with ranking_mset [of R distances] show ?thesis by simp
qed

lemma print_recommendations_eval:
  "embeddings_from_strings E strings model w = (Inr embeddings, w') \<Longrightarrow>
   nearest_neighbors R embeddings q = Inr (distances, ranking) \<Longrightarrow>
   py_getitem strings q = Inr query_string \<Longrightarrow>
   print_recommendations_from_strings E R strings q k model w =
     (Inr (recommendations strings query_string k 0 ranking, ranking), w')"
  by (simp add: print_recommendations_from_strings_def)

lemma axis_provider_answers:
  "\<forall>h s m. \<exists>v. get_embedding axis_provider h s m = Inr v \<and> length v = 2"
  "\<forall>n. disk axis_provider n = Written"
  "\<forall>k v. embedding_cache empty_session k = Some v \<longrightarrow> length v = 2"
  by (simp_all add: axis_provider_def empty_session_def)

lemma axis_example:
  "fst (print_recommendations_from_strings axis_provider exact_numpy [''A'', ''A'', ''B''] 0 k
     ''m'' empty_session) =
     Inr (recommendations [''A'', ''A'', ''B''] ''A'' k 0 [1, 0, 2], [1, 0, 2])"
proof -
  have fetched: "fst (embeddings_from_strings axis_provider [''A'', ''A'', ''B''] ''m''
      empty_session) = Inr [[1, 0], [1, 0], [0, 1]]"
    by (simp add: embedding_from_string_def pickle_dump_def axis_provider_def empty_session_def)
  have d: "distances_from_embeddings exact_numpy [1, 0] [[1, 0], [1, 0], [0, 1]] =
      Inr [Finite 1, Finite 1, Finite 0]"
    by (simp add: cosine_similarity_def exact_numpy_def)
  have "indices_of_closest_matches_from_distances exact_numpy [Finite 1, Finite 1, Finite 0] =
      rev (list_sort_short (\<lambda>i. [Finite 1, Finite 1, Finite 0] ! i)
        [0..<length [Finite 1, Finite 1, Finite 0]])"
    by (rule short_ranking) simp
  also have "\<dots> = [1, 0, 2]" by code_simp
  finally have r: "indices_of_closest_matches_from_distances exact_numpy
      [Finite 1, Finite 1, Finite 0] = [1, 0, 2]" .
  have nn: "nearest_neighbors exact_numpy [[1, 0], [1, 0], [0, 1]] 0 =
      Inr ([Finite 1, Finite 1, Finite 0], [1, 0, 2])"
    by (simp add: nearest_neighbors_def py_getitem_def d r del: distances_from_embeddings.simps)
  have qs: "py_getitem [''A'', ''A'', ''B''] 0 = Inr ''A''" by (simp add: py_getitem_def)
  from fetched have "embeddings_from_strings axis_provider [''A'', ''A'', ''B''] ''m''
      empty_session = (Inr [[1, 0], [1, 0], [0, 1]],
        snd (embeddings_from_strings axis_provider [''A'', ''A'', ''B''] ''m'' empty_session))"
    by (simp add: prod_eq_iff)
  from print_recommendations_eval [OF this nn qs] show ?thesis by simp
qed

text \<open>
  C6: whenever the call returns, what it prints is the first \<open>k\<close> entries of the full
  ranking whose text differs from the query's text: every index with the query's text
  is skipped, the query index and every duplicate of its text alike, so no printed
  recommendation has the query's text; for the corpus \<open>["A", "A", "B"]\<close>, query index 0
  and \<open>k = 1\<close> the recommendation printed is index 2, whatever the embeddings. And the
  call does return when the provider answers with vectors of one length, the writes go
  through and the index is within the corpus.
\<close>

theorem identical_texts_skipped:
    "(print_recommendations_from_strings E R strings q k model w = (Inr (printed, ranking), w') \<longrightarrow>
        (\<exists>query_string. py_getitem strings q = Inr query_string \<and>
           printed = take (nat k) (filter (\<lambda>i. strings ! i \<noteq> query_string) ranking) \<and>
           mset ranking = mset [0..<length strings] \<and>
           (\<forall>i\<in>set printed. i < length strings \<and> strings ! i \<noteq> query_string) \<and>
           (strings = [''A'', ''A'', ''B''] \<and> q = 0 \<and> k = 1 \<longrightarrow> printed = [2]))) \<and>
     ((\<forall>h s m. \<exists>v. get_embedding E h s m = Inr v \<and> length v = d) \<and>
      (\<forall>n. disk E n = Written) \<and>
      (\<forall>k v. embedding_cache w k = Some v \<longrightarrow> length v = d) \<and>
      - int (length strings) \<le> q \<and> q < int (length strings) \<longrightarrow>
        (\<exists>printed ranking w'.
           print_recommendations_from_strings E R strings q k model w =
             (Inr (printed, ranking), w')))"
proof (intro conjI impI)
  assume run: "print_recommendations_from_strings E R strings q k model w =
      (Inr (printed, ranking), w')"
  then obtain query_string where qs: "py_getitem strings q = Inr query_string"
    and printed: "printed = recommendations strings query_string k 0 ranking"
    unfolding print_recommendations_cases by blast
  have perm: "mset ranking = mset [0..<length strings]"
    using run by (rule print_recommendations_permutation)
  have tf: "printed = take (nat k) (filter (\<lambda>i. strings ! i \<noteq> query_string) ranking)"
    using printed by (simp add: recommendations_take_filter)
  have "set ranking = {0..<length strings}"
    using perm by (metis mset_eq_setD set_upt)
  then have each: "\<forall>i\<in>set printed. i < length strings \<and> strings ! i \<noteq> query_string"
    unfolding tf by (auto dest!: in_set_takeD)
  have "printed = [2]" if "strings = [''A'', ''A'', ''B'']" and "q = 0" and "k = 1"
  proof -
    from qs that have q: "query_string = ''A''" by (simp add: py_getitem_def)
    have "mset (filter (\<lambda>i. strings ! i \<noteq> query_string) ranking) =
          mset (filter (\<lambda>i. strings ! i \<noteq> query_string) [0..<length strings])"
      by (simp only: mset_filter perm)
    also have "filter (\<lambda>i. strings ! i \<noteq> query_string) [0..<length strings] = [2]"
      using that q by (simp add: upt_rec)
    finally have "mset (filter (\<lambda>i. strings ! i \<noteq> query_string) ranking) = mset [2]" .
    then have "mset (filter (\<lambda>i. strings ! i \<noteq> query_string) ranking) = {#2#}"
      by (simp del: mset_filter)
    then have "filter (\<lambda>i. strings ! i \<noteq> query_string) ranking = [2]"
      by (simp only: mset_single_iff)
    with tf that show ?thesis by simp
  qed
  with qs tf perm each
  show "\<exists>query_string. py_getitem strings q = Inr query_string \<and>
           printed = take (nat k) (filter (\<lambda>i. strings ! i \<noteq> query_string) ranking) \<and>
           mset ranking = mset [0..<length strings] \<and>
           (\<forall>i\<in>set printed. i < length strings \<and> strings ! i \<noteq> query_string) \<and>
           (strings = [''A'', ''A'', ''B''] \<and> q = 0 \<and> k = 1 \<longrightarrow> printed = [2])"
    by blast
next
  assume "(\<forall>h s m. \<exists>v. get_embedding E h s m = Inr v \<and> length v = d) \<and>
      (\<forall>n. disk E n = Written) \<and>
      (\<forall>k v. embedding_cache w k = Some v \<longrightarrow> length v = d) \<and>
      - int (length strings) \<le> q \<and> q < int (length strings)"
  then show "\<exists>printed ranking w'.
      print_recommendations_from_strings E R strings q k model w = (Inr (printed, ranking), w')"
    by (intro print_recommendations_returns [where d = d]) blast+
qed

theorem identical_texts_skipped_witness:
  "fst (print_recommendations_from_strings axis_provider exact_numpy [''A'', ''A'', ''B''] 0 1
     ''m'' empty_session) = Inr ([2], [1, 0, 2]) \<and>
   py_getitem [''A'', ''A'', ''B''] 0 = Inr ''A'' \<and>
   list_all (\<lambda>i. i < length [''A'', ''A'', ''B''] \<and> [''A'', ''A'', ''B''] ! i \<noteq> ''A'') [2] \<and>
   (\<forall>h s m. \<exists>v. get_embedding axis_provider h s m = Inr v \<and> length v = 2) \<and>
   (\<forall>n. disk axis_provider n = Written) \<and>
   embedding_cache empty_session = Map.empty \<and>
   - int (length [''A'', ''A'', ''B'']) \<le> 0 \<and> (0::int) < int (length [''A'', ''A'', ''B''])"
proof -
  let ?run = "print_recommendations_from_strings axis_provider exact_numpy [''A'', ''A'', ''B'']
      0 1 ''m'' empty_session"
  have out: "fst ?run = Inr ([2], [1, 0, 2])"
    using axis_example [of 1] by simp
  then have run: "?run = (Inr ([2], [1, 0, 2]), snd ?run)"
    by (simp add: prod_eq_iff)
  note inst = identical_texts_skipped [where E = axis_provider and R = exact_numpy
      and strings = "[''A'', ''A'', ''B'']" and q = 0 and k = 1 and model = "''m''"
      and w = empty_session and printed = "[2]" and ranking = "[1, 0, 2]" and w' = "snd ?run"
      and d = 2]
  from inst [THEN conjunct1, THEN mp, OF run]
  have skipped: "py_getitem [''A'', ''A'', ''B''] 0 = Inr ''A''"
    by (auto simp: py_getitem_def)
  have valid: "- int (length [''A'', ''A'', ''B'']) \<le> 0" "(0::int) < int (length [''A'', ''A'', ''B''])"
    by simp_all
  from inst [THEN conjunct2, THEN mp] axis_provider_answers valid
  have "\<exists>printed ranking w'. ?run = (Inr (printed, ranking), w')" by blast
  with out skipped show ?thesis
    by (simp add: axis_provider_def empty_session_def)
qed



text \<open>
  C10 (as stated): the list returned is the descending ranking of all indices. With a
  NaN among the scores it need not be descending: for the corpus \<open>["A", "Z", "B"]\<close>,
  where the embedding of "Z" is the zero vector, the scores of query 0 are 1, NaN and 0
  and the list returned is \<open>[2, 1, 0]\<close>: index 2, of score 0, comes before index 0, of
  score 1.
\<close>

theorem returned_ranking_descending_counterexample:
  "fst (print_recommendations_from_strings zero_provider exact_numpy [''A'', ''Z'', ''B''] 0 1
     ''m'' empty_session) = Inr ([2], [2, 1, 0]) \<and>
   nearest_neighbors exact_numpy [[1, 0], [0, 0], [0, 1]] 0 =
     Inr ([Finite 1, NaN, Finite 0], [2, 1, 0]) \<and>
   float_lt ([Finite 1, NaN, Finite 0] ! ([2, 1, 0] ! 0)) ([Finite 1, NaN, Finite 0] ! ([2, 1, 0] ! 2))"
proof -
  have fetched: "fst (embeddings_from_strings zero_provider [''A'', ''Z'', ''B''] ''m''
      empty_session) = Inr [[1, 0], [0, 0], [0, 1]]"
    by (simp add: embedding_from_string_def pickle_dump_def zero_provider_def empty_session_def)
  have d: "distances_from_embeddings exact_numpy [1, 0] [[1, 0], [0, 0], [0, 1]] =
      Inr [Finite 1, NaN, Finite 0]"
    by (simp add: cosine_similarity_def exact_numpy_def)
  have "indices_of_closest_matches_from_distances exact_numpy [Finite 1, NaN, Finite 0] =
      rev (list_sort_short (\<lambda>i. [Finite 1, NaN, Finite 0] ! i)
        [0..<length [Finite 1, NaN, Finite 0]])"
    by (rule short_ranking) simp
  also have "\<dots> = [2, 1, 0]" by code_simp
  finally have r: "indices_of_closest_matches_from_distances exact_numpy
      [Finite 1, NaN, Finite 0] = [2, 1, 0]" .
  have nn: "nearest_neighbors exact_numpy [[1, 0], [0, 0], [0, 1]] 0 =
      Inr ([Finite 1, NaN, Finite 0], [2, 1, 0])"
    by (simp add: nearest_neighbors_def py_getitem_def d r del: distances_from_embeddings.simps)
  have qs: "py_getitem [''A'', ''Z'', ''B''] 0 = Inr ''A''" by (simp add: py_getitem_def)
  from fetched have "embeddings_from_strings zero_provider [''A'', ''Z'', ''B''] ''m''
      empty_session = (Inr [[1, 0], [0, 0], [0, 1]],
        snd (embeddings_from_strings zero_provider [''A'', ''Z'', ''B''] ''m'' empty_session))"
    by (simp add: prod_eq_iff)
  from print_recommendations_eval [OF this nn qs, of 1]
  have "fst (print_recommendations_from_strings zero_provider exact_numpy [''A'', ''Z'', ''B'']
      0 1 ''m'' empty_session) = Inr ([2], [2, 1, 0])"
    by simp
  with nn show ?thesis by simp
qed

text \<open>
  C10 (amended): the value returned, the exception raised and the state left behind are
  the same for every \<open>k_nearest_neighbors\<close>; the list returned is the ranking of the scores
  of all embeddings, unfiltered: a permutation of all indices of the corpus, the query
  index and the duplicates of its text included, and in non-increasing order of score
  when no score is NaN. Only what is printed depends on \<open>k\<close> and on the texts. The call
  returns when the provider answers with vectors of one length, the writes go through
  and the index is within the corpus.
\<close>

theorem returned_ranking_independent_of_k:
  "map_sum id snd (fst (print_recommendations_from_strings E R strings q k model w)) =
     map_sum id snd (fst (print_recommendations_from_strings E R strings q k' model w)) \<and>
   snd (print_recommendations_from_strings E R strings q k model w) =
     snd (print_recommendations_from_strings E R strings q k' model w) \<and>
   (print_recommendations_from_strings E R strings q k model w = (Inr (printed, ranking), w') \<longrightarrow>
      (\<exists>embeddings distances.
          embeddings_from_strings E strings model w = (Inr embeddings, w') \<and>
          nearest_neighbors R embeddings q = Inr (distances, ranking) \<and>
          ranking = indices_of_closest_matches_from_distances R distances \<and>
          length distances = length strings \<and>
          mset ranking = mset [0..<length strings] \<and>
          (NaN \<notin> set distances \<longrightarrow>
             sorted_wrt (\<lambda>a b. \<not> float_lt a b) (map ((!) distances) ranking)))) \<and>
   ((\<forall>h s m. \<exists>v. get_embedding E h s m = Inr v \<and> length v = d) \<and>
    (\<forall>n. disk E n = Written) \<and>
    (\<forall>k v. embedding_cache w k = Some v \<longrightarrow> length v = d) \<and>
    - int (length strings) \<le> q \<and> q < int (length strings) \<longrightarrow>
      (\<exists>printed ranking w'.
         print_recommendations_from_strings E R strings q k model w =
           (Inr (printed, ranking), w')))"
proof (intro conjI impI)
  show "map_sum id snd (fst (print_recommendations_from_strings E R strings q k model w)) =
     map_sum id snd (fst (print_recommendations_from_strings E R strings q k' model w))"
    by (simp add: print_recommendations_from_strings_def split: prod.splits sum.splits)
  show "snd (print_recommendations_from_strings E R strings q k model w) =
     snd (print_recommendations_from_strings E R strings q k' model w)"
    by (simp add: print_recommendations_from_strings_def split: prod.splits sum.splits)
next
  assume run: "print_recommendations_from_strings E R strings q k model w =
      (Inr (printed, ranking), w')"
  then obtain embeddings distances where
    es: "embeddings_from_strings E strings model w = (Inr embeddings, w')"
    and nn: "nearest_neighbors R embeddings q = Inr (distances, ranking)"
    unfolding print_recommendations_cases by blast
  have r: "ranking = indices_of_closest_matches_from_distances R distances"
    using nn by (rule nearest_neighbors_returns)
  have len: "length distances = length strings"
    using nn es by (simp add: nearest_neighbors_returns embeddings_from_strings_length)
  have perm: "mset ranking = mset [0..<length strings]"
    using run by (rule print_recommendations_permutation)
  have finite: "sorted_wrt (\<lambda>a b. \<not> float_lt a b) (map ((!) distances) ranking)"
    if "NaN \<notin> set distances"
    using that ranking_non_increasing [of distances R] r by simp
  from es nn r len perm finite
  show "\<exists>embeddings distances.
          embeddings_from_strings E strings model w = (Inr embeddings, w') \<and>
          nearest_neighbors R embeddings q = Inr (distances, ranking) \<and>
          ranking = indices_of_closest_matches_from_distances R distances \<and>
          length distances = length strings \<and>
          mset ranking = mset [0..<length strings] \<and>
          (NaN \<notin> set distances \<longrightarrow>
             sorted_wrt (\<lambda>a b. \<not> float_lt a b) (map ((!) distances) ranking))"
    by blast
next
  assume "(\<forall>h s m. \<exists>v. get_embedding E h s m = Inr v \<and> length v = d) \<and>
    (\<forall>n. disk E n = Written) \<and>
    (\<forall>k v. embedding_cache w k = Some v \<longrightarrow> length v = d) \<and>
    - int (length strings) \<le> q \<and> q < int (length strings)"
  then show "\<exists>printed ranking w'.
      print_recommendations_from_strings E R strings q k model w = (Inr (printed, ranking), w')"
    by (intro print_recommendations_returns [where d = d]) blast+
qed

theorem returned_ranking_independent_of_k_witness:
  "fst (print_recommendations_from_strings axis_provider exact_numpy [''A'', ''A'', ''B''] 0 1
     ''m'' empty_session) = Inr ([2], [1, 0, 2]) \<and>
   fst (print_recommendations_from_strings axis_provider exact_numpy [''A'', ''A'', ''B''] 0 0
     ''m'' empty_session) = Inr ([], [1, 0, 2]) \<and>
   nearest_neighbors exact_numpy [[1, 0], [1, 0], [0, 1]] 0 =
     Inr ([Finite 1, Finite 1, Finite 0], [1, 0, 2]) \<and>
   NaN \<notin> set [Finite 1, Finite 1, Finite 0] \<and>
   mset [1, 0, 2 :: nat] = mset [0..<length [''A'', ''A'', ''B'']] \<and>
   (\<forall>h s m. \<exists>v. get_embedding axis_provider h s m = Inr v \<and> length v = 2) \<and>
   (\<forall>n. disk axis_provider n = Written) \<and>
   embedding_cache empty_session = Map.empty \<and>
   - int (length [''A'', ''A'', ''B'']) \<le> 0 \<and> (0::int) < int (length [''A'', ''A'', ''B''])"
proof -
  let ?run = "print_recommendations_from_strings axis_provider exact_numpy [''A'', ''A'', ''B'']
      0 1 ''m'' empty_session"
  have out: "fst ?run = Inr ([2], [1, 0, 2])"
    using axis_example [of 1] by simp
  then have run: "?run = (Inr ([2], [1, 0, 2]), snd ?run)"
    by (simp add: prod_eq_iff)
  note inst = returned_ranking_independent_of_k [where E = axis_provider and R = exact_numpy
      and strings = "[''A'', ''A'', ''B'']" and q = 0 and k = 1 and k' = 0 and model = "''m''"
      and w = empty_session and printed = "[2]" and ranking = "[1, 0, 2]" and w' = "snd ?run"
      and d = 2]
  from inst [THEN conjunct2, THEN conjunct2, THEN conjunct1, THEN mp, OF run]
  obtain embeddings distances
    where "nearest_neighbors exact_numpy embeddings 0 = Inr (distances, [1, 0, 2])"
      and p: "mset [1, 0, 2 :: nat] = mset [0..<length [''A'', ''A'', ''B'']]"
    by blast
  have d: "distances_from_embeddings exact_numpy [1, 0] [[1, 0], [1, 0], [0, 1]] =
      Inr [Finite 1, Finite 1, Finite 0]"
    by (simp add: cosine_similarity_def exact_numpy_def)
  have "indices_of_closest_matches_from_distances exact_numpy [Finite 1, Finite 1, Finite 0] =
      rev (list_sort_short (\<lambda>i. [Finite 1, Finite 1, Finite 0] ! i)
        [0..<length [Finite 1, Finite 1, Finite 0]])"
    by (rule short_ranking) simp
  also have "\<dots> = [1, 0, 2]" by code_simp
  finally have r: "indices_of_closest_matches_from_distances exact_numpy
      [Finite 1, Finite 1, Finite 0] = [1, 0, 2]" .
  have nn: "nearest_neighbors exact_numpy [[1, 0], [1, 0], [0, 1]] 0 =
      Inr ([Finite 1, Finite 1, Finite 0], [1, 0, 2])"
    by (simp add: nearest_neighbors_def py_getitem_def d r del: distances_from_embeddings.simps)
  have "fst (print_recommendations_from_strings axis_provider exact_numpy [''A'', ''A'', ''B'']
      0 0 ''m'' empty_session) = Inr ([], [1, 0, 2])"
    using axis_example [of 0] by simp
  with out nn p show ?thesis
    by (simp add: axis_provider_def empty_session_def)
qed

end
